theory Spec2Isabelle
  imports Main
begin

section \<open>Python values, errors and the object store\<close>

text \<open>
  \<^verbatim>\<open>repair_json(text, return_objects=True)\<close> returns whatever JSON value the text
  denotes: a dict, a list, a string, a number, a boolean or \<^verbatim>\<open>None\<close>. A dict is an
  association list of its items. The value of a float plays no role in this code; it is
  kept as a mantissa and an exponent.
\<close>

datatype pyval =
    PNone
  | PBool bool
  | PInt int
  | PFloat int int
  | PStr string
  | PList "pyval list"
  | PDict "(string \<times> pyval) list"

text \<open>
  The exceptions the modelled code can meet; all of them are subclasses of Python's
  \<^verbatim>\<open>Exception\<close>. \<open>GeneratorError\<close> stands for whatever the completion call raises
  (network failure, timeout, provider error), with its message.
\<close>

datatype pyerror =
    TypeError
  | IndexError
  | KeyError string
  | GeneratorError string

text \<open>A message is the dict \<^verbatim>\<open>{"role": ..., "content": ...}\<close>.\<close>

record message =
  role :: string
  content :: string

text \<open>
  Message dicts are mutable objects: \<^verbatim>\<open>messages[0]["content"] = ...\<close> writes into the
  object, and every list that holds the object sees the write. Objects live in a store, a
  list indexed by reference; allocation appends. A conversation is the list of the
  references of its messages. The source never writes into a list of messages (it only
  builds new lists), so lists are plain values.
\<close>

type_synonym ref = nat

text \<open>What \<^verbatim>\<open>print\<close> wrote: the fixed text of each line is the constructor, the
  interpolated values are its arguments.\<close>

datatype log_line =
    MissingKeysScaffolding "string list" pyval
  | MissingKeysResponse "string list" "message list" string pyval
  | FailedGenerate int
  | MissingKeysNotes "string list" pyval
  | FailedUpdate pyerror

record world =
  heap :: "message list"
  calls :: "message list list"
  stdout :: "log_line list"

definition alloc :: "message \<Rightarrow> world \<Rightarrow> ref \<times> world" where
  "alloc m w = (length (heap w), w\<lparr>heap := heap w @ [m]\<rparr>)"

definition deref :: "world \<Rightarrow> ref \<Rightarrow> message" where
  "deref w r = heap w ! r"

definition print :: "log_line \<Rightarrow> world \<Rightarrow> world" where
  "print l w = w\<lparr>stdout := stdout w @ [l]\<rparr>"

text \<open>Every reference of a conversation points into the store (Python has no dangling
  references).\<close>

definition wf_conv :: "world \<Rightarrow> ref list \<Rightarrow> bool" where
  "wf_conv w conv = list_all (\<lambda>r. r < length (heap w)) conv"

section \<open>The external collaborators\<close>

text \<open>
  The text generator (\<^verbatim>\<open>litellm.completion\<close>), \<^verbatim>\<open>json_repair.repair_json\<close> and the
  prompt templates of the module \<^verbatim>\<open>prompts\<close> are not part of the sources; they are
  parameters. The generator is not a function of its input: \<open>llm n\<close> is the outcome of
  the invocation that follows \<open>n\<close> earlier ones, either a raised exception or the text of
  \<^verbatim>\<open>choices[0].message.content\<close>. A template is the function that \<^verbatim>\<open>.format\<close> computes
  from the texts of its arguments. \<open>repr_other\<close> is Python's \<^verbatim>\<open>str\<close> on numbers, lists
  and dicts.
\<close>

record env =
  llm :: "nat \<Rightarrow> pyerror + string"
  repair_json :: "string \<Rightarrow> pyval"
  repr_other :: "pyval \<Rightarrow> string"
  agent_system_prompt :: "int \<Rightarrow> string"
  agent_system_prompt_with_user_preferences :: "int \<Rightarrow> string \<Rightarrow> string"
  reflective_agent_system_prompt :: "int \<Rightarrow> string \<Rightarrow> string"
  update_agent_notes_prompt :: "string \<Rightarrow> string \<Rightarrow> string"
  proper_scaffolding_prompt :: "string \<Rightarrow> string \<Rightarrow> string"

section \<open>Python operators used by the code\<close>

text \<open>\<^verbatim>\<open>str(v)\<close>, as an f-string or \<^verbatim>\<open>.format\<close> inserts a value.\<close>

definition py_str :: "env \<Rightarrow> pyval \<Rightarrow> string" where
  "py_str e v =
     (case v of
        PStr s \<Rightarrow> s
      | PNone \<Rightarrow> ''None''
      | PBool b \<Rightarrow> (if b then ''True'' else ''False'')
      | _ \<Rightarrow> repr_other e v)"

text \<open>Truth value of an object in a condition.\<close>

definition truthy :: "pyval \<Rightarrow> bool" where
  "truthy v =
     (case v of
        PNone \<Rightarrow> False
      | PBool b \<Rightarrow> b
      | PInt n \<Rightarrow> n \<noteq> 0
      | PFloat m ex \<Rightarrow> m \<noteq> 0
      | PStr s \<Rightarrow> s \<noteq> []
      | PList xs \<Rightarrow> xs \<noteq> []
      | PDict kvs \<Rightarrow> kvs \<noteq> [])"

text \<open>\<^verbatim>\<open>k in s\<close> on two strings: \<open>k\<close> occurs in \<open>s\<close> as a contiguous piece.\<close>

fun is_substring :: "string \<Rightarrow> string \<Rightarrow> bool" where
  "is_substring k [] = (k = [])"
| "is_substring k (c # cs) = (take (length k) (c # cs) = k \<or> is_substring k cs)"

text \<open>
  \<^verbatim>\<open>key in processed\<close>: a key of a dict, a substring of a string, an element of a list;
  on a number, a boolean or \<^verbatim>\<open>None\<close> it raises \<^verbatim>\<open>TypeError\<close> (argument is not
  iterable).
\<close>

definition py_in :: "string \<Rightarrow> pyval \<Rightarrow> pyerror + bool" where
  "py_in k v =
     (case v of
        PDict kvs \<Rightarrow> Inr (k \<in> set (map fst kvs))
      | PStr s \<Rightarrow> Inr (is_substring k s)
      | PList xs \<Rightarrow> Inr (PStr k \<in> set xs)
      | _ \<Rightarrow> Inl TypeError)"

text \<open>\<^verbatim>\<open>processed[key]\<close> with a string key: only a dict has string subscripts.\<close>

definition py_getitem :: "pyval \<Rightarrow> string \<Rightarrow> pyerror + pyval" where
  "py_getitem v k =
     (case v of
        PDict kvs \<Rightarrow> (case map_of kvs k of None \<Rightarrow> Inl (KeyError k) | Some x \<Rightarrow> Inr x)
      | _ \<Rightarrow> Inl TypeError)"

text \<open>The comprehension \<^verbatim>\<open>[key for key in keys if key not in processed]\<close>; the first
  membership test that raises ends it.\<close>

fun missing_keys :: "string list \<Rightarrow> pyval \<Rightarrow> pyerror + string list" where
  "missing_keys [] v = Inr []"
| "missing_keys (k # ks) v =
     (case py_in k v of
        Inl e \<Rightarrow> Inl e
      | Inr b \<Rightarrow>
          (case missing_keys ks v of
             Inl e \<Rightarrow> Inl e
           | Inr ms \<Rightarrow> Inr (if b then ms else k # ms)))"

text \<open>\<^verbatim>\<open>str.capitalize\<close> and \<^verbatim>\<open>str.join\<close>, on ASCII text.\<close>

definition to_upper :: "char \<Rightarrow> char" where
  "to_upper c =
     (let n = (of_char c :: nat) in if 97 \<le> n \<and> n \<le> 122 then char_of (n - 32) else c)"

definition to_lower :: "char \<Rightarrow> char" where
  "to_lower c =
     (let n = (of_char c :: nat) in if 65 \<le> n \<and> n \<le> 90 then char_of (n + 32) else c)"

definition capitalize :: "string \<Rightarrow> string" where
  "capitalize s = (case s of [] \<Rightarrow> [] | c # cs \<Rightarrow> to_upper c # map to_lower cs)"

fun join :: "string \<Rightarrow> string list \<Rightarrow> string" where
  "join sep [] = []"
| "join sep [x] = x"
| "join sep (x # y # ys) = x @ sep @ join sep (y # ys)"

section \<open>The agent\<close>

record agent =
  num_retries :: int
  model_name :: string
  user_preferences :: pyval
  agent_notes :: pyval
  with_scaffolding :: bool
  with_proper_scaffolding :: bool
  max_new_tokens :: int
  system_prompt :: string

text \<open>\<^verbatim>\<open>CollaboratorAgent.__init__\<close>. The generation parameters (\<^verbatim>\<open>kwargs\<close>) only travel
  to the generator and are left out.\<close>

definition init :: "env \<Rightarrow> string \<Rightarrow> pyval \<Rightarrow> pyval \<Rightarrow> bool \<Rightarrow> bool \<Rightarrow> int \<Rightarrow> agent" where
  "init e mn prefs notes ws wps nr =
     \<lparr>num_retries = nr, model_name = mn, user_preferences = prefs, agent_notes = notes,
      with_scaffolding = ws, with_proper_scaffolding = wps, max_new_tokens = 2048,
      system_prompt =
        (if truthy notes then reflective_agent_system_prompt e 2048 (py_str e notes)
         else if truthy prefs then
           agent_system_prompt_with_user_preferences e 2048 (py_str e prefs)
         else agent_system_prompt e 2048)\<rparr>"

definition get_conversation_string :: "message list \<Rightarrow> string" where
  "get_conversation_string ms =
     join [CHR 0x0A] (map (\<lambda>m. capitalize (role m) @ '': '' @ content m) ms)"

text \<open>\<^verbatim>\<open>completion\<close>: one invocation of the generator. The world records the messages
  that were sent.\<close>

definition completion :: "env \<Rightarrow> message list \<Rightarrow> world \<Rightarrow> (pyerror + string) \<times> world" where
  "completion e ms w = (llm e (length (calls w)), w\<lparr>calls := calls w @ [ms]\<rparr>)"

text \<open>\<^verbatim>\<open>messages[0]["content"] = pre + messages[0]["content"]\<close>.\<close>

definition prepend_first :: "string \<Rightarrow> ref list \<Rightarrow> world \<Rightarrow> (pyerror + unit) \<times> world" where
  "prepend_first pre msgs w =
     (case msgs of
        [] \<Rightarrow> (Inl IndexError, w)
      | r # _ \<Rightarrow>
          (Inr (), w\<lparr>heap := (heap w)[r := (deref w r)\<lparr>content := pre @ content (deref w r)\<rparr>]\<rparr>))"

definition raw_instruction :: string where
  "raw_instruction =
     ''Remember, you have been taking notes throughout past conversations about user preferences. Use whatever is relevant in these notes to guide your response:''
     @ [CHR 0x0A]"

definition proper_instruction :: string where
  "proper_instruction =
     ''Remember, you have been taking notes throughout past conversations about user preferences. Use these notes to guide your response:''
     @ [CHR 0x0A]"

text \<open>The loop of \<^verbatim>\<open>add_scaffolding_to_conversation\<close> (model-mediated mode), with the
  number of iterations left. Falling off the loop returns \<^verbatim>\<open>None\<close>.\<close>

fun scaffolding_loop ::
  "env \<Rightarrow> message list \<Rightarrow> ref list \<Rightarrow> nat \<Rightarrow> world \<Rightarrow> (pyerror + ref list option) \<times> world" where
  "scaffolding_loop e sm msgs 0 w = (Inr None, w)"
| "scaffolding_loop e sm msgs (Suc n) w =
     (case completion e sm w of
        (Inl err, w1) \<Rightarrow> (Inl err, w1)
      | (Inr scaffolding_response, w1) \<Rightarrow>
          (let processed = repair_json e scaffolding_response in
           case missing_keys [''reasoning'', ''relevant_notes''] processed of
             Inl err \<Rightarrow> (Inl err, w1)
           | Inr mk \<Rightarrow>
               if mk \<noteq> [] then
                 scaffolding_loop e sm msgs n (print (MissingKeysScaffolding mk processed) w1)
               else
                 (case py_getitem processed ''relevant_notes'' of
                    Inl err \<Rightarrow> (Inl err, w1)
                  | Inr scaffolded_notes \<Rightarrow>
                      (case prepend_first (proper_instruction @ py_str e scaffolded_notes) msgs w1 of
                         (Inl err, w2) \<Rightarrow> (Inl err, w2)
                       | (Inr u, w2) \<Rightarrow> (Inr (Some msgs), w2)))))"

definition add_scaffolding_to_conversation ::
  "env \<Rightarrow> agent \<Rightarrow> ref list \<Rightarrow> world \<Rightarrow> (pyerror + ref list option) \<times> world" where
  "add_scaffolding_to_conversation e a msgs w =
     (if \<not> with_proper_scaffolding a then
        (case prepend_first (raw_instruction @ py_str e (agent_notes a)) msgs w of
           (Inl err, w1) \<Rightarrow> (Inl err, w1)
         | (Inr u, w1) \<Rightarrow> (Inr (Some msgs), w1))
      else
        (let conversation_str = get_conversation_string (map (deref w) msgs);
             formatted = proper_scaffolding_prompt e conversation_str (py_str e (agent_notes a));
             (r, w1) = alloc \<lparr>role = ''user'', content = formatted\<rparr> w
         in scaffolding_loop e [deref w1 r] msgs (nat (num_retries a)) w1))"

text \<open>\<^verbatim>\<open>copy.deepcopy\<close> of a list of message dicts. Its memo keeps sharing: an object
  that occurs twice in the list is copied once.\<close>

fun deepcopy_refs :: "ref list \<Rightarrow> (ref \<times> ref) list \<Rightarrow> world \<Rightarrow> ref list \<times> world" where
  "deepcopy_refs [] memo w = ([], w)"
| "deepcopy_refs (r # rs) memo w =
     (case map_of memo r of
        Some r' \<Rightarrow> (let (rs', w') = deepcopy_refs rs memo w in (r' # rs', w'))
      | None \<Rightarrow>
          (let (r', w1) = alloc (deref w r) w;
               (rs', w') = deepcopy_refs rs ((r, r') # memo) w1
           in (r' # rs', w')))"

definition deepcopy :: "ref list \<Rightarrow> world \<Rightarrow> ref list \<times> world" where
  "deepcopy conv w = deepcopy_refs conv [] w"

text \<open>The loop of \<^verbatim>\<open>generate_collaborator_response\<close>, with the number of iterations
  left. \<^verbatim>\<open>[system message] + conversation\<close> raises \<^verbatim>\<open>TypeError\<close> when
  \<^verbatim>\<open>conversation\<close> is \<^verbatim>\<open>None\<close>. No exception is caught here.\<close>

fun generate_loop ::
  "env \<Rightarrow> agent \<Rightarrow> nat \<Rightarrow> ref list \<Rightarrow> world \<Rightarrow> (pyerror + pyval option) \<times> world" where
  "generate_loop e a 0 conversation w =
     (Inr None, print (FailedGenerate (num_retries a)) w)"
| "generate_loop e a (Suc n) conversation w =
     (case (if with_scaffolding a then add_scaffolding_to_conversation e a conversation w
            else (Inr (Some conversation), w)) of
        (Inl err, w1) \<Rightarrow> (Inl err, w1)
      | (Inr conversation', w1) \<Rightarrow>
          (let (s, w2) = alloc \<lparr>role = ''system'', content = system_prompt a\<rparr> w1 in
           case conversation' of
             None \<Rightarrow> (Inl TypeError, w2)
           | Some conversation1 \<Rightarrow>
               (let messages = s # conversation1 in
                case completion e (map (deref w2) messages) w2 of
                  (Inl err, w3) \<Rightarrow> (Inl err, w3)
                | (Inr response, w3) \<Rightarrow>
                    (let processed = repair_json e response in
                     case missing_keys [''reasoning'', ''response''] processed of
                       Inl err \<Rightarrow> (Inl err, w3)
                     | Inr mk \<Rightarrow>
                         if mk \<noteq> [] then
                           generate_loop e a n conversation1
                             (print (MissingKeysResponse mk (map (deref w2) messages)
                                       response processed) w3)
                         else (Inr (Some processed), w3)))))"

definition generate_collaborator_response ::
  "env \<Rightarrow> agent \<Rightarrow> ref list \<Rightarrow> world \<Rightarrow> (pyerror + pyval option) \<times> world" where
  "generate_collaborator_response e a conversation w =
     (let (conversation', w1) = deepcopy conversation w
      in generate_loop e a (nat (num_retries a)) conversation' w1)"

text \<open>One pass through the \<^verbatim>\<open>try\<close> block of \<^verbatim>\<open>update_agent_notes\<close>: \<open>Inl\<close> an exception
  raised inside it, \<open>Inr None\<close> the \<^verbatim>\<open>continue\<close>, \<open>Inr (Some r)\<close> the \<^verbatim>\<open>return\<close>.\<close>

definition update_attempt ::
  "env \<Rightarrow> string \<Rightarrow> world \<Rightarrow> (pyerror + pyval option) \<times> world" where
  "update_attempt e formatted w =
     (let (r, w1) = alloc \<lparr>role = ''user'', content = formatted\<rparr> w in
      case completion e [deref w1 r] w1 of
        (Inl err, w2) \<Rightarrow> (Inl err, w2)
      | (Inr response, w2) \<Rightarrow>
          (let processed = repair_json e response in
           case missing_keys [''user_preferences_reasoning'', ''agent_notes''] processed of
             Inl err \<Rightarrow> (Inl err, w2)
           | Inr mk \<Rightarrow>
               if mk \<noteq> [] then (Inr None, print (MissingKeysNotes mk processed) w2)
               else (Inr (Some processed), w2)))"

text \<open>The loop of \<^verbatim>\<open>update_agent_notes\<close>: \<^verbatim>\<open>except Exception\<close> prints and lets the loop
  go on.\<close>

fun update_loop ::
  "env \<Rightarrow> string \<Rightarrow> nat \<Rightarrow> world \<Rightarrow> (pyerror + pyval option) \<times> world" where
  "update_loop e formatted 0 w = (Inr None, w)"
| "update_loop e formatted (Suc n) w =
     (case update_attempt e formatted w of
        (Inl err, w1) \<Rightarrow> update_loop e formatted n (print (FailedUpdate err) w1)
      | (Inr None, w1) \<Rightarrow> update_loop e formatted n w1
      | (Inr (Some processed), w1) \<Rightarrow> (Inr (Some processed), w1))"

definition update_agent_notes ::
  "env \<Rightarrow> agent \<Rightarrow> pyval \<Rightarrow> ref list \<Rightarrow> world \<Rightarrow> (pyerror + pyval option) \<times> world" where
  "update_agent_notes e a notes conversation w =
     (let conversation_str = get_conversation_string (map (deref w) conversation);
          formatted = update_agent_notes_prompt e (py_str e notes) conversation_str
      in update_loop e formatted (nat (num_retries a)) w)"

section \<open>The callers in the study interface\<close>

text \<open>\<^verbatim>\<open>[{"role": msg["role"], "content": msg["content"]} for msg in messages]\<close>: the
  conversation handed to the agent is a list of fresh dicts.\<close>

fun alloc_all :: "message list \<Rightarrow> world \<Rightarrow> ref list \<times> world" where
  "alloc_all [] w = ([], w)"
| "alloc_all (m # ms) w =
     (let (r, w1) = alloc \<lparr>role = role m, content = content m\<rparr> w;
          (rs, w2) = alloc_all ms w1
      in (r # rs, w2))"

text \<open>The condition \<^verbatim>\<open>result and key in result\<close>.\<close>

definition result_has :: "pyval option \<Rightarrow> string \<Rightarrow> pyerror + bool" where
  "result_has result k =
     (case result of
        None \<Rightarrow> Inr False
      | Some v \<Rightarrow> if truthy v then py_in k v else Inr False)"

definition apology :: string where
  "apology =
     ''I apologize, but I'm having trouble generating a response. Could you please try rephrasing your question?''"

text \<open>\<^verbatim>\<open>show_study_interface\<close>, from the result of the agent to the text that is
  displayed.\<close>

definition response_text_of :: "pyval option \<Rightarrow> pyerror + pyval" where
  "response_text_of result =
     (case result_has result ''response'' of
        Inl err \<Rightarrow> Inl err
      | Inr b \<Rightarrow>
          if b then (case result of None \<Rightarrow> Inl TypeError | Some v \<Rightarrow> py_getitem v ''response'')
          else Inr (PStr apology))"

text \<open>The part of \<^verbatim>\<open>st.session_state\<close> that \<^verbatim>\<open>show_survey_interface\<close> reads and writes
  when it consolidates the notes.\<close>

record session =
  st_agent_notes :: pyval
  st_agent :: agent
  st_messages :: "message list"

definition MODEL_NAME :: string where
  "MODEL_NAME = ''together_ai/meta-llama/Llama-3.3-70B-Instruct-Turbo''"

text \<open>\<^verbatim>\<open>show_survey_interface\<close> on submission, from \<^verbatim>\<open>agent_notes_before\<close> to
  \<^verbatim>\<open>agent_notes_after\<close>. \<^verbatim>\<open>API_BASE\<close> and \<^verbatim>\<open>API_KEY\<close> are \<^verbatim>\<open>None\<close>, so the new agent
  gets the model name and the notes only.\<close>

definition survey_update_notes ::
  "env \<Rightarrow> bool \<Rightarrow> session \<Rightarrow> world \<Rightarrow> (pyerror + session) \<times> world" where
  "survey_update_notes e uses_memory st w =
     (if uses_memory then
        (let (conversation, w1) = alloc_all (st_messages st) w in
         case (if truthy (st_agent_notes st) then
                 update_agent_notes e (st_agent st) (st_agent_notes st) conversation w1
               else
                 update_agent_notes e (st_agent st)
                   (PStr ''Initial notes: No preferences learned yet.'') conversation w1) of
           (Inl err, w2) \<Rightarrow> (Inl err, w2)
         | (Inr result, w2) \<Rightarrow>
             (case result_has result ''agent_notes'' of
                Inl err \<Rightarrow> (Inl err, w2)
              | Inr b \<Rightarrow>
                  if b then
                    (case result of
                       None \<Rightarrow> (Inl TypeError, w2)
                     | Some v \<Rightarrow>
                         (case py_getitem v ''agent_notes'' of
                            Inl err \<Rightarrow> (Inl err, w2)
                          | Inr notes \<Rightarrow>
                              (Inr (st\<lparr>st_agent_notes := notes,
                                       st_agent := init e MODEL_NAME PNone notes False False 10\<rparr>),
                               w2)))
                  else (Inr st, w2)))
      else (Inr st, w))"

section \<open>Notions used in the statements\<close>

text \<open>The three lists of required keys, as the three call sites spell them.\<close>

definition response_keys :: "string list" where
  "response_keys = [''reasoning'', ''response'']"

definition notes_keys :: "string list" where
  "notes_keys = [''user_preferences_reasoning'', ''agent_notes'']"

definition scaffolding_keys :: "string list" where
  "scaffolding_keys = [''reasoning'', ''relevant_notes'']"

text \<open>The \<open>n\<close>-th invocation of the generator returns a text whose repaired value has
  every key of \<open>ks\<close>.\<close>

definition valid_at :: "env \<Rightarrow> string list \<Rightarrow> nat \<Rightarrow> bool" where
  "valid_at e ks n =
     (case llm e n of
        Inl err \<Rightarrow> False
      | Inr raw \<Rightarrow> missing_keys ks (repair_json e raw) = Inr [])"

text \<open>The \<open>n\<close>-th invocation returns a text that fails validation: the list of its
  missing keys is computed and is not empty.\<close>

definition rejected_at :: "env \<Rightarrow> string list \<Rightarrow> nat \<Rightarrow> bool" where
  "rejected_at e ks n =
     (case llm e n of
        Inl err \<Rightarrow> False
      | Inr raw \<Rightarrow>
          (case missing_keys ks (repair_json e raw) of
             Inl err \<Rightarrow> False
           | Inr ms \<Rightarrow> ms \<noteq> []))"

text \<open>The message that model-mediated scaffolding sends to the generator.\<close>

definition scaffolding_message :: "env \<Rightarrow> agent \<Rightarrow> ref list \<Rightarrow> world \<Rightarrow> message" where
  "scaffolding_message e a msgs w =
     \<lparr>role = ''user'',
      content = proper_scaffolding_prompt e (get_conversation_string (map (deref w) msgs))
                  (py_str e (agent_notes a))\<rparr>"

text \<open>\<open>n\<close> copies of a text, one after the other.\<close>

definition stacked :: "nat \<Rightarrow> string \<Rightarrow> string" where
  "stacked n pre = concat (replicate n pre)"

text \<open>The repaired value of the text that the \<open>n\<close>-th invocation returns.\<close>

definition record_at :: "env \<Rightarrow> nat \<Rightarrow> pyval" where
  "record_at e n = (case llm e n of Inl err \<Rightarrow> PNone | Inr raw \<Rightarrow> repair_json e raw)"

section \<open>Example inputs\<close>

text \<open>A sample of what \<^verbatim>\<open>repair_json\<close> returns: the value of a well-formed JSON text,
  and the empty string for a text that holds no JSON.\<close>

definition example_repair_json :: "string \<Rightarrow> pyval" where
  \<open>example_repair_json s =
     (if s = ''{"reasoning": "r", "response": "hi"}'' then
        PDict [(''reasoning'', PStr ''r''), (''response'', PStr ''hi'')]
      else if s = ''{"reasoning": "r", "relevant_notes": "likes Python"}'' then
        PDict [(''reasoning'', PStr ''r''), (''relevant_notes'', PStr ''likes Python'')]
      else if s = ''{"user_preferences_reasoning": "u", "agent_notes": "likes Python"}'' then
        PDict [(''user_preferences_reasoning'', PStr ''u''), (''agent_notes'', PStr ''likes Python'')]
      else if s = ''{"response": "hi"}'' then PDict [(''response'', PStr ''hi'')]
      else if s = ''{}'' then PDict []
      else if s = ''42'' then PInt 42
      else if s = ''"no reasoning, no response"'' then PStr ''no reasoning, no response''
      else PStr [])\<close>

definition example_env :: "(nat \<Rightarrow> pyerror + string) \<Rightarrow> env" where
  "example_env script =
     \<lparr>llm = script,
      repair_json = example_repair_json,
      repr_other = (\<lambda>v. ''<value>''),
      agent_system_prompt = (\<lambda>n. ''You are an assistant.''),
      agent_system_prompt_with_user_preferences = (\<lambda>n p. ''You are an assistant. '' @ p),
      reflective_agent_system_prompt = (\<lambda>n p. ''You are an assistant. '' @ p),
      update_agent_notes_prompt = (\<lambda>notes c. ''Update: '' @ notes @ '' / '' @ c),
      proper_scaffolding_prompt = (\<lambda>c notes. ''Select: '' @ c @ '' / '' @ notes)\<rparr>"

definition example_agent :: "bool \<Rightarrow> bool \<Rightarrow> int \<Rightarrow> agent" where
  "example_agent ws wps nr =
     \<lparr>num_retries = nr, model_name = ''m'', user_preferences = PNone,
      agent_notes = PStr ''Prefers Python.'', with_scaffolding = ws,
      with_proper_scaffolding = wps, max_new_tokens = 2048,
      system_prompt = ''You are an assistant.''\<rparr>"

text \<open>A store with one message, the caller's only one.\<close>

definition example_world :: world where
  "example_world = \<lparr>heap = [\<lparr>role = ''user'', content = ''Hello''\<rparr>], calls = [], stdout = []\<rparr>"

text \<open>Generators: one that answers with a valid response record at once, one that never
  does.\<close>

definition answers_at_once :: "nat \<Rightarrow> pyerror + string" where
  \<open>answers_at_once n = Inr ''{"reasoning": "r", "response": "hi"}''\<close>

definition never_valid :: "nat \<Rightarrow> pyerror + string" where
  \<open>never_valid n = Inr ''{"response": "hi"}''\<close>

text \<open>Generators that fail validation twice and then answer.\<close>

definition two_failures_then_response :: "nat \<Rightarrow> pyerror + string" where
  \<open>two_failures_then_response n =
     (if n < 2 then Inr ''{"response": "hi"}''
      else Inr ''{"reasoning": "r", "response": "hi"}'')\<close>

definition two_failures_then_notes :: "nat \<Rightarrow> pyerror + string" where
  \<open>two_failures_then_notes n =
     (if n < 2 then Inr ''{"response": "hi"}''
      else Inr ''{"user_preferences_reasoning": "u", "agent_notes": "likes Python"}'')\<close>

text \<open>A generator whose first answer is a valid scaffolding record and whose second
  answer is a valid response record.\<close>

definition scaffold_then_response :: "nat \<Rightarrow> pyerror + string" where
  \<open>scaffold_then_response n =
     (if n = 0 then Inr ''{"reasoning": "r", "relevant_notes": "likes Python"}''
      else Inr ''{"reasoning": "r", "response": "hi"}'')\<close>

text \<open>A generator whose every call raises.\<close>

definition times_out :: "nat \<Rightarrow> pyerror + string" where
  "times_out n = Inl (GeneratorError ''timeout'')"


definition answers_string :: "nat \<Rightarrow> pyerror + string" where
  \<open>answers_string n = Inr ''"no reasoning, no response"''\<close>

section \<open>Basic facts about the store and the loops\<close>

lemma alloc_simps:
  "fst (alloc m w) = length (heap w)"
  "heap (snd (alloc m w)) = heap w @ [m]"
  "calls (snd (alloc m w)) = calls w"
  "stdout (snd (alloc m w)) = stdout w"
  by (simp_all add: alloc_def)

lemma print_simps:
  "heap (print l w) = heap w"
  "calls (print l w) = calls w"
  "stdout (print l w) = stdout w @ [l]"
  by (simp_all add: print_def)

lemma completionD:
  "completion e ms w = (r, w') \<Longrightarrow>
     r = llm e (length (calls w)) \<and> heap w' = heap w \<and> calls w' = calls w @ [ms] \<and> stdout w' = stdout w"
  by (auto simp: completion_def)

lemma prepend_firstD:
  assumes "prepend_first pre msgs w = (r, w')"
  shows "length (heap w') = length (heap w)"
    and "calls w' = calls w" and "stdout w' = stdout w"
    and "msgs = [] \<or> L \<le> hd msgs \<Longrightarrow> take L (heap w') = take L (heap w)"
  using assms by (cases msgs; auto simp: prepend_first_def)+

lemma scaffolding_loop_result:
  "scaffolding_loop e sm msgs n w = (Inr (Some x), w') \<Longrightarrow> x = msgs"
  by (induction n arbitrary: w)
     (auto simp: Let_def split: sum.splits prod.splits if_splits simp del: missing_keys.simps)

lemma scaffolding_loop_heap:
  assumes "scaffolding_loop e sm msgs n w = (r, w')"
  shows "length (heap w') = length (heap w)"
    and "msgs = [] \<or> L \<le> hd msgs \<Longrightarrow> take L (heap w') = take L (heap w)"
  using assms
proof (induction n arbitrary: w)
  case 0
  { case 1 then show ?case by simp }
  { case 2 then show ?case by simp }
next
  case (Suc n)
  { case 1 
    then show ?case
      using Suc.IH(1)
      by (auto simp: Let_def print_simps split: sum.splits prod.splits if_splits
          simp del: missing_keys.simps dest!: completionD dest: prepend_firstD(1)) }
  { case 2 
    then show ?case
      using Suc.IH(2)
      by (auto simp: Let_def print_simps split: sum.splits prod.splits if_splits
          simp del: missing_keys.simps dest!: completionD dest: prepend_firstD(4)) }
qed


lemma add_scaffolding_raw:
  "\<not> with_proper_scaffolding a \<Longrightarrow>
   add_scaffolding_to_conversation e a msgs w =
     (case prepend_first (raw_instruction @ py_str e (agent_notes a)) msgs w of
        (Inl err, w1) \<Rightarrow> (Inl err, w1)
      | (Inr u, w1) \<Rightarrow> (Inr (Some msgs), w1))"
  by (simp add: add_scaffolding_to_conversation_def)

lemma add_scaffolding_proper:
  "with_proper_scaffolding a \<Longrightarrow>
   add_scaffolding_to_conversation e a msgs w =
     scaffolding_loop e [scaffolding_message e a msgs w] msgs (nat (num_retries a))
       (w\<lparr>heap := heap w @ [scaffolding_message e a msgs w]\<rparr>)"
  by (simp add: add_scaffolding_to_conversation_def Let_def alloc_def deref_def
      scaffolding_message_def)

lemma add_scaffolding_length:
  assumes "add_scaffolding_to_conversation e a msgs w = (r, w')"
  shows "length (heap w) \<le> length (heap w')"
proof (cases "with_proper_scaffolding a")
  case False
  then show ?thesis using assms
    by (auto simp: add_scaffolding_raw split: sum.splits prod.splits dest: prepend_firstD(1))
next
  case True
  then show ?thesis
    using assms scaffolding_loop_heap(1)[of e _ msgs _ _ r w']
    by (simp add: add_scaffolding_proper)
qed

lemma add_scaffolding_take:
  assumes "add_scaffolding_to_conversation e a msgs w = (r, w')"
    and "L \<le> length (heap w)" and "msgs = [] \<or> L \<le> hd msgs"
  shows "take L (heap w') = take L (heap w)"
proof (cases "with_proper_scaffolding a")
  case False
  then show ?thesis using assms(1,3)
    by (auto simp: add_scaffolding_raw split: sum.splits prod.splits dest: prepend_firstD(4))
next
  case True
  then show ?thesis
    using assms(1,2) scaffolding_loop_heap(2)[of e _ msgs _ _ r w' L, OF _ assms(3)]
    by (simp add: add_scaffolding_proper)
qed

lemma add_scaffolding_result:
  assumes "add_scaffolding_to_conversation e a msgs w = (Inr (Some x), w')"
  shows "x = msgs"
proof (cases "with_proper_scaffolding a")
  case False
  then show ?thesis using assms
    by (auto simp: add_scaffolding_raw split: sum.splits prod.splits)
next
  case True
  then show ?thesis using assms scaffolding_loop_result
    by (simp add: add_scaffolding_proper)
qed

lemma generate_loop_heap:
  assumes "generate_loop e a n conv w = (r, w')"
    and "L \<le> length (heap w)" and "conv = [] \<or> L \<le> hd conv"
  shows "take L (heap w') = take L (heap w)"
  using assms
proof (induction n arbitrary: conv w)
  case 0
  then show ?case by (auto simp: print_simps)
next
  case (Suc n)
  obtain r1 w1 where s: "(if with_scaffolding a then add_scaffolding_to_conversation e a conv w
            else (Inr (Some conv), w)) = (r1, w1)"
    by (metis surj_pair)
  have h1: "take L (heap w1) = take L (heap w)"
    using s add_scaffolding_take[of e a conv w r1 w1 L] Suc.prems(2,3)
    by (auto split: if_splits)
  have l1: "length (heap w) \<le> length (heap w1)"
    using s add_scaffolding_length[of e a conv w r1 w1]
    by (auto split: if_splits)
  have c1: "x = conv" if "r1 = Inr (Some x)" for x
    using s that add_scaffolding_result[of e a conv w x w1]
    by (auto split: if_splits)
  obtain sr w2 where al: "alloc \<lparr>role = ''system'', content = system_prompt a\<rparr> w1 = (sr, w2)"
    by (metis surj_pair)
  have h2: "heap w2 = heap w1 @ [\<lparr>role = ''system'', content = system_prompt a\<rparr>]"
    using al by (auto simp: alloc_def)
  have t2: "take L (heap w2) = take L (heap w)" and l2: "L \<le> length (heap w2)"
    using h1 l1 h2 Suc.prems(2) by auto
  show ?case
  proof (cases r1)
    case (Inl err)
    then show ?thesis using Suc.prems(1) s h1 by simp
  next
    case (Inr c')
    show ?thesis
    proof (cases c')
      case None
      then show ?thesis using Suc.prems(1) s Inr al t2 by simp
    next
      case (Some conv1)
      then have eq: "conv1 = conv" using c1 Inr by simp
      obtain r3 w3 where cp: "completion e (map (deref w2) (sr # conv)) w2 = (r3, w3)"
        by (metis surj_pair)
      have h3: "heap w3 = heap w2" using completionD[OF cp] by simp
      have ih: "generate_loop e a n conv (print l w3) = (r, w') \<Longrightarrow>
                  take L (heap w') = take L (heap w)" for l
        using Suc.IH[of conv "print l w3"] Suc.prems(3) h3 t2 l2 by (simp add: print_simps)
      show ?thesis
        using Suc.prems(1) s Inr Some eq al cp h3 t2 ih
        by (auto simp: Let_def split: sum.splits if_splits
            simp del: missing_keys.simps)
    qed
  qed
qed

lemma deepcopy_refs_length:
  "deepcopy_refs rs memo w = (rs', w') \<Longrightarrow> length (heap w) \<le> length (heap w')"
proof (induction rs arbitrary: memo w rs' w')
  case Nil
  then show ?case by simp
next
  case (Cons r rs)
  show ?case
  proof (cases "map_of memo r")
    case None
    obtain rs1 w1 where rec:
      "deepcopy_refs rs ((r, length (heap w)) # memo) (w\<lparr>heap := heap w @ [deref w r]\<rparr>) = (rs1, w1)"
      by (metis surj_pair)
    then have "w' = w1" using Cons.prems None by (simp add: alloc_def)
    then show ?thesis using Cons.IH[OF rec] by simp
  next
    case (Some r')
    obtain rs1 w1 where rec: "deepcopy_refs rs memo w = (rs1, w1)"
      by (metis surj_pair)
    then have "w' = w1" using Cons.prems Some by simp
    then show ?thesis using Cons.IH[OF rec] by simp
  qed
qed

lemma deepcopy_refs_take:
  "deepcopy_refs rs memo w = (rs', w') \<Longrightarrow> L \<le> length (heap w) \<Longrightarrow>
     take L (heap w') = take L (heap w)"
proof (induction rs arbitrary: memo w rs' w')
  case Nil
  then show ?case by simp
next
  case (Cons r rs)
  show ?case
  proof (cases "map_of memo r")
    case None
    obtain rs1 w1 where rec:
      "deepcopy_refs rs ((r, length (heap w)) # memo) (w\<lparr>heap := heap w @ [deref w r]\<rparr>) = (rs1, w1)"
      by (metis surj_pair)
    then have "w' = w1" using Cons.prems None by (simp add: alloc_def)
    then show ?thesis using Cons.IH[OF rec] Cons.prems(2) by simp
  next
    case (Some r')
    obtain rs1 w1 where rec: "deepcopy_refs rs memo w = (rs1, w1)"
      by (metis surj_pair)
    then have "w' = w1" using Cons.prems Some by simp
    then show ?thesis using Cons.IH[OF rec] Cons.prems(2) by simp
  qed
qed

lemma deepcopy_refs_fresh:
  "deepcopy_refs rs memo w = (rs', w') \<Longrightarrow> L \<le> length (heap w) \<Longrightarrow>
     \<forall>b \<in> snd ` set memo. L \<le> b \<Longrightarrow> \<forall>r \<in> set rs'. L \<le> r"
proof (induction rs arbitrary: memo w rs' w')
  case Nil
  then show ?case by simp
next
  case (Cons r rs)
  show ?case
  proof (cases "map_of memo r")
    case None
    obtain rs1 w1 where rec:
      "deepcopy_refs rs ((r, length (heap w)) # memo) (w\<lparr>heap := heap w @ [deref w r]\<rparr>) = (rs1, w1)"
      by (metis surj_pair)
    then have eq: "rs' = length (heap w) # rs1" using Cons.prems None by (simp add: alloc_def)
    have "\<forall>x \<in> set rs1. L \<le> x"
      using Cons.IH[OF rec] Cons.prems(2,3) by simp
    then show ?thesis using eq Cons.prems(2) by simp
  next
    case (Some r')
    obtain rs1 w1 where rec: "deepcopy_refs rs memo w = (rs1, w1)"
      by (metis surj_pair)
    then have eq: "rs' = r' # rs1" using Cons.prems Some by simp
    have "\<forall>x \<in> set rs1. L \<le> x"
      using Cons.IH[OF rec] Cons.prems(2,3) by simp
    moreover have "L \<le> r'" using Some Cons.prems(3) by (force dest: map_of_SomeD)
    ultimately show ?thesis using eq by simp
  qed
qed

lemma generate_frame:
  "take (length (heap w)) (heap (snd (generate_collaborator_response e a conv w))) = heap w"
proof -
  obtain conv' w1 where d: "deepcopy_refs conv [] w = (conv', w1)" by (metis surj_pair)
  obtain r w' where g: "generate_loop e a (nat (num_retries a)) conv' w1 = (r, w')"
    by (metis surj_pair)
  have 1: "length (heap w) \<le> length (heap w1)" using deepcopy_refs_length[OF d] .
  have 2: "take (length (heap w)) (heap w1) = heap w"
    using deepcopy_refs_take[OF d, of "length (heap w)"] by simp
  have 3: "\<forall>r \<in> set conv'. length (heap w) \<le> r"
    using deepcopy_refs_fresh[OF d, of "length (heap w)"] by simp
  then have 4: "conv' = [] \<or> length (heap w) \<le> hd conv'" by (cases conv') auto
  have "take (length (heap w)) (heap w') = take (length (heap w)) (heap w1)"
    using generate_loop_heap[OF g 1 4] .
  then show ?thesis using 2 d g by (simp add: generate_collaborator_response_def deepcopy_def)
qed


lemma allocD:
  "alloc m w = (r, w') \<Longrightarrow>
     r = length (heap w) \<and> heap w' = heap w @ [m] \<and> calls w' = calls w \<and> stdout w' = stdout w"
  by (auto simp: alloc_def)

lemma scaffolding_loop_calls:
  "scaffolding_loop e sm msgs n w = (r, w') \<Longrightarrow> \<exists>ys. calls w' = calls w @ ys"
proof (induction n arbitrary: w)
  case 0
  then show ?case by simp
next
  case (Suc n)
  obtain r1 w1 where c: "completion e sm w = (r1, w1)" by (metis surj_pair)
  have c1: "calls w1 = calls w @ [sm]" using completionD[OF c] by simp
  have ih: "scaffolding_loop e sm msgs n (print l w1) = (r, w') \<Longrightarrow> \<exists>ys. calls w' = calls w @ ys" for l
    using Suc.IH[of "print l w1"] c1 by (auto simp: print_simps)
  show ?case
    using Suc.prems c c1 ih
    by (auto simp: Let_def split: sum.splits prod.splits if_splits
        simp del: missing_keys.simps dest: prepend_firstD(2))
qed

lemma add_scaffolding_calls:
  assumes "add_scaffolding_to_conversation e a msgs w = (r, w')"
  shows "\<exists>ys. calls w' = calls w @ ys"
proof (cases "with_proper_scaffolding a")
  case False
  then show ?thesis using assms
    by (auto simp: add_scaffolding_raw split: sum.splits prod.splits dest: prepend_firstD(2))
next
  case True
  then have "scaffolding_loop e [scaffolding_message e a msgs w] msgs (nat (num_retries a))
       (w\<lparr>heap := heap w @ [scaffolding_message e a msgs w]\<rparr>) = (r, w')"
    using assms by (simp add: add_scaffolding_proper)
  from scaffolding_loop_calls[OF this] show ?thesis by simp
qed

lemma generate_loop_calls:
  "generate_loop e a n conv w = (r, w') \<Longrightarrow> \<exists>ys. calls w' = calls w @ ys"
proof (induction n arbitrary: conv w)
  case 0
  then show ?case by (auto simp: print_simps)
next
  case (Suc n)
  obtain r1 w1 where s: "(if with_scaffolding a then add_scaffolding_to_conversation e a conv w
            else (Inr (Some conv), w)) = (r1, w1)"
    by (metis surj_pair)
  obtain ys1 where c1: "calls w1 = calls w @ ys1"
    using s add_scaffolding_calls[of e a conv w r1 w1] by (auto split: if_splits)
  obtain sr w2 where al: "alloc \<lparr>role = ''system'', content = system_prompt a\<rparr> w1 = (sr, w2)"
    by (metis surj_pair)
  have c2: "calls w2 = calls w @ ys1" using allocD[OF al] c1 by simp
  show ?case
  proof (cases r1)
    case (Inl err)
    then show ?thesis using Suc.prems(1) s c1 by auto
  next
    case (Inr c')
    show ?thesis
    proof (cases c')
      case None
      then show ?thesis using Suc.prems(1) s Inr al c2 by auto
    next
      case (Some conv1)
      obtain r3 w3 where cp: "completion e (map (deref w2) (sr # conv1)) w2 = (r3, w3)"
        by (metis surj_pair)
      have c3: "calls w3 = calls w @ ys1 @ [map (deref w2) (sr # conv1)]"
        using completionD[OF cp] c2 by simp
      have ih: "generate_loop e a n conv1 (print l w3) = (r, w') \<Longrightarrow>
                  \<exists>ys. calls w' = calls w @ ys" for l
        using Suc.IH[of conv1 "print l w3"] c3 by (auto simp: print_simps)
      show ?thesis
        using Suc.prems(1) s Inr Some al cp c3 ih
        by (auto simp: Let_def split: sum.splits if_splits
            simp del: missing_keys.simps)
    qed
  qed
qed

lemma quiet_scaffolding:
  assumes "\<not> with_scaffolding a \<or> (\<not> with_proper_scaffolding a \<and> conv \<noteq> [])"
  shows "\<exists>w1. (if with_scaffolding a then add_scaffolding_to_conversation e a conv w
            else (Inr (Some conv), w)) = (Inr (Some conv), w1)
           \<and> calls w1 = calls w \<and> stdout w1 = stdout w \<and> length (heap w1) = length (heap w)"
  using assms
  by (cases conv) (auto simp: add_scaffolding_raw prepend_first_def)

lemma generate_loop_step:
  assumes "\<not> with_scaffolding a \<or> (\<not> with_proper_scaffolding a \<and> conv \<noteq> [])"
  shows "\<exists>w3 msgs. calls w3 = calls w @ [msgs] \<and> stdout w3 = stdout w \<and>
     generate_loop e a (Suc n) conv w =
       (case llm e (length (calls w)) of
          Inl err \<Rightarrow> (Inl err, w3)
        | Inr raw \<Rightarrow>
            (case missing_keys [''reasoning'', ''response''] (repair_json e raw) of
               Inl err \<Rightarrow> (Inl err, w3)
             | Inr mk \<Rightarrow>
                 if mk \<noteq> [] then
                   generate_loop e a n conv
                     (print (MissingKeysResponse mk msgs raw (repair_json e raw)) w3)
                 else (Inr (Some (repair_json e raw)), w3)))"
proof -
  obtain w1 where s: "(if with_scaffolding a then add_scaffolding_to_conversation e a conv w
            else (Inr (Some conv), w)) = (Inr (Some conv), w1)"
    and c1: "calls w1 = calls w" and o1: "stdout w1 = stdout w"
    using quiet_scaffolding[OF assms] by blast
  obtain sr w2 where al: "alloc \<lparr>role = ''system'', content = system_prompt a\<rparr> w1 = (sr, w2)"
    by (metis surj_pair)
  have c2: "calls w2 = calls w" and o2: "stdout w2 = stdout w"
    using allocD[OF al] c1 o1 by simp_all
  obtain r3 w3 where cp: "completion e (map (deref w2) (sr # conv)) w2 = (r3, w3)"
    by (metis surj_pair)
  have c3: "calls w3 = calls w @ [map (deref w2) (sr # conv)]" "r3 = llm e (length (calls w))"
    "stdout w3 = stdout w"
    using completionD[OF cp] c2 o2 by simp_all
  have "generate_loop e a (Suc n) conv w =
       (case llm e (length (calls w)) of
          Inl err \<Rightarrow> (Inl err, w3)
        | Inr raw \<Rightarrow>
            (case missing_keys [''reasoning'', ''response''] (repair_json e raw) of
               Inl err \<Rightarrow> (Inl err, w3)
             | Inr mk \<Rightarrow>
                 if mk \<noteq> [] then
                   generate_loop e a n conv
                     (print (MissingKeysResponse mk (map (deref w2) (sr # conv)) raw (repair_json e raw)) w3)
                 else (Inr (Some (repair_json e raw)), w3)))"
    using s al cp c3(2)
    by (simp add: Let_def split: sum.splits del: missing_keys.simps)
  then show ?thesis using c3(1,3) by blast
qed

lemma generate_loop_retry:
  assumes "\<not> with_scaffolding a \<or> (\<not> with_proper_scaffolding a \<and> conv \<noteq> [])"
    and "\<forall>i<k. rejected_at e response_keys (length (calls w) + i)"
    and "llm e (length (calls w) + k) = Inr raw"
    and "missing_keys response_keys (repair_json e raw) = Inr []"
    and "k < n"
  shows "\<exists>w'. generate_loop e a n conv w = (Inr (Some (repair_json e raw)), w')
           \<and> length (calls w') = length (calls w) + k + 1"
  using assms(2-)
proof (induction k arbitrary: n w)
  case 0
  then obtain n' where n: "n = Suc n'" by (cases n) auto
  show ?case
    using generate_loop_step[OF assms(1), of w e n'] 0(2,3) n
    by (auto simp: response_keys_def simp del: missing_keys.simps)
next
  case (Suc k)
  then obtain n' where n: "n = Suc n'" by (cases n) auto
  obtain w3 msgs where c3: "calls w3 = calls w @ [msgs]"
    and st: "generate_loop e a (Suc n') conv w =
       (case llm e (length (calls w)) of
          Inl err \<Rightarrow> (Inl err, w3)
        | Inr raw \<Rightarrow>
            (case missing_keys [''reasoning'', ''response''] (repair_json e raw) of
               Inl err \<Rightarrow> (Inl err, w3)
             | Inr mk \<Rightarrow>
                 if mk \<noteq> [] then
                   generate_loop e a n' conv
                     (print (MissingKeysResponse mk msgs raw (repair_json e raw)) w3)
                 else (Inr (Some (repair_json e raw)), w3)))"
    using generate_loop_step[OF assms(1), of w e n'] by blast
  have rej: "rejected_at e response_keys (length (calls w))"
    using Suc.prems(1) by (metis add.right_neutral zero_less_Suc)
  then obtain raw0 mk where r0: "llm e (length (calls w)) = Inr raw0"
    "missing_keys [''reasoning'', ''response''] (repair_json e raw0) = Inr mk" "mk \<noteq> []"
    by (auto simp: rejected_at_def response_keys_def split: sum.splits simp del: missing_keys.simps)
  define w4 where "w4 = print (MissingKeysResponse mk msgs raw0 (repair_json e raw0)) w3"
  have c4: "length (calls w4) = Suc (length (calls w))"
    using c3 by (simp add: w4_def print_simps)
  have "\<exists>w'. generate_loop e a n' conv w4 = (Inr (Some (repair_json e raw)), w')
           \<and> length (calls w') = length (calls w4) + k + 1"
  proof (rule Suc.IH)
    show "\<forall>i<k. rejected_at e response_keys (length (calls w4) + i)"
      using Suc.prems(1) c4 by (metis Suc_less_eq add_Suc_right add_Suc_shift)
    show "llm e (length (calls w4) + k) = Inr raw" using Suc.prems(2) c4 by simp
    show "missing_keys response_keys (repair_json e raw) = Inr []" using Suc.prems(3) .
    show "k < n'" using Suc.prems(4) n by simp
  qed
  then show ?case
    using st r0 n c4 by (auto simp: w4_def simp del: missing_keys.simps)
qed

lemma generate_loop_exhausted:
  assumes "\<not> with_scaffolding a \<or> (\<not> with_proper_scaffolding a \<and> conv \<noteq> [])"
    and "\<forall>i<n. rejected_at e response_keys (length (calls w) + i)"
  shows "\<exists>w'. generate_loop e a n conv w = (Inr None, w')
           \<and> length (calls w') = length (calls w) + n"
  using assms(2)
proof (induction n arbitrary: w)
  case 0
  then show ?case by (simp add: print_simps)
next
  case (Suc n)
  obtain w3 msgs where c3: "calls w3 = calls w @ [msgs]"
    and st: "generate_loop e a (Suc n) conv w =
       (case llm e (length (calls w)) of
          Inl err \<Rightarrow> (Inl err, w3)
        | Inr raw \<Rightarrow>
            (case missing_keys [''reasoning'', ''response''] (repair_json e raw) of
               Inl err \<Rightarrow> (Inl err, w3)
             | Inr mk \<Rightarrow>
                 if mk \<noteq> [] then
                   generate_loop e a n conv
                     (print (MissingKeysResponse mk msgs raw (repair_json e raw)) w3)
                 else (Inr (Some (repair_json e raw)), w3)))"
    using generate_loop_step[OF assms(1), of w e n] by blast
  have rej: "rejected_at e response_keys (length (calls w))"
    using Suc.prems(1) by (metis add.right_neutral zero_less_Suc)
  then obtain raw0 mk where r0: "llm e (length (calls w)) = Inr raw0"
    "missing_keys [''reasoning'', ''response''] (repair_json e raw0) = Inr mk" "mk \<noteq> []"
    by (auto simp: rejected_at_def response_keys_def split: sum.splits simp del: missing_keys.simps)
  define w4 where "w4 = print (MissingKeysResponse mk msgs raw0 (repair_json e raw0)) w3"
  have c4: "length (calls w4) = Suc (length (calls w))"
    using c3 by (simp add: w4_def print_simps)
  have "\<exists>w'. generate_loop e a n conv w4 = (Inr None, w')
           \<and> length (calls w') = length (calls w4) + n"
  proof (rule Suc.IH)
    show "\<forall>i<n. rejected_at e response_keys (length (calls w4) + i)"
      using Suc.prems(1) c4 by (metis Suc_less_eq add_Suc_right add_Suc_shift)
  qed
  then show ?case
    using st r0 c4 by (auto simp: w4_def simp del: missing_keys.simps)
qed

lemma update_attempt_cases:
  "\<exists>w1. length (calls w1) = Suc (length (calls w)) \<and> stdout w1 = stdout w \<and>
     update_attempt e p w =
       (case llm e (length (calls w)) of
          Inl err \<Rightarrow> (Inl err, w1)
        | Inr raw \<Rightarrow>
            (case missing_keys [''user_preferences_reasoning'', ''agent_notes''] (repair_json e raw) of
               Inl err \<Rightarrow> (Inl err, w1)
             | Inr mk \<Rightarrow>
                 if mk \<noteq> [] then (Inr None, print (MissingKeysNotes mk (repair_json e raw)) w1)
                 else (Inr (Some (repair_json e raw)), w1)))"
proof -
  obtain r w1 where al: "alloc \<lparr>role = ''user'', content = p\<rparr> w = (r, w1)" by (metis surj_pair)
  obtain r2 w2 where cp: "completion e [deref w1 r] w1 = (r2, w2)" by (metis surj_pair)
  have "length (calls w2) = Suc (length (calls w))" "stdout w2 = stdout w"
    "r2 = llm e (length (calls w))"
    using allocD[OF al] completionD[OF cp] by simp_all
  moreover have "update_attempt e p w =
       (case r2 of
          Inl err \<Rightarrow> (Inl err, w2)
        | Inr raw \<Rightarrow>
            (case missing_keys [''user_preferences_reasoning'', ''agent_notes''] (repair_json e raw) of
               Inl err \<Rightarrow> (Inl err, w2)
             | Inr mk \<Rightarrow>
                 if mk \<noteq> [] then (Inr None, print (MissingKeysNotes mk (repair_json e raw)) w2)
                 else (Inr (Some (repair_json e raw)), w2)))"
    using al cp by (simp add: update_attempt_def Let_def split: sum.splits del: missing_keys.simps)
  ultimately show ?thesis by blast
qed

lemma update_loop_skip:
  assumes "\<not> valid_at e notes_keys (length (calls w))"
  shows "\<exists>w1. length (calls w1) = Suc (length (calls w)) \<and>
           update_loop e p (Suc n) w = update_loop e p n w1"
proof -
  obtain w1 where c: "length (calls w1) = Suc (length (calls w))"
    and u: "update_attempt e p w =
       (case llm e (length (calls w)) of
          Inl err \<Rightarrow> (Inl err, w1)
        | Inr raw \<Rightarrow>
            (case missing_keys [''user_preferences_reasoning'', ''agent_notes''] (repair_json e raw) of
               Inl err \<Rightarrow> (Inl err, w1)
             | Inr mk \<Rightarrow>
                 if mk \<noteq> [] then (Inr None, print (MissingKeysNotes mk (repair_json e raw)) w1)
                 else (Inr (Some (repair_json e raw)), w1)))"
    using update_attempt_cases[of w e p] by blast
  show ?thesis
  proof (cases "llm e (length (calls w))")
    case (Inl err)
    then have "update_loop e p (Suc n) w = update_loop e p n (print (FailedUpdate err) w1)"
      using u by simp
    then show ?thesis using c by (metis print_simps(2))
  next
    case (Inr raw)
    show ?thesis
    proof (cases "missing_keys [''user_preferences_reasoning'', ''agent_notes''] (repair_json e raw)")
      case (Inl err)
      then have "update_loop e p (Suc n) w = update_loop e p n (print (FailedUpdate err) w1)"
        using u Inr by (simp del: missing_keys.simps)
      then show ?thesis using c by (metis print_simps(2))
    next
      case mk: (Inr mk)
      then have ne: "mk \<noteq> []"
        using assms Inr by (auto simp: valid_at_def notes_keys_def simp del: missing_keys.simps)
      then have "update_loop e p (Suc n) w =
          update_loop e p n (print (MissingKeysNotes mk (repair_json e raw)) w1)"
        using u Inr mk by (simp del: missing_keys.simps)
      then show ?thesis using c by (metis print_simps(2))
    qed
  qed
qed

lemma update_loop_accept:
  assumes "llm e (length (calls w)) = Inr raw"
    and "missing_keys notes_keys (repair_json e raw) = Inr []"
  shows "\<exists>w1. length (calls w1) = Suc (length (calls w)) \<and>
           update_loop e p (Suc n) w = (Inr (Some (repair_json e raw)), w1)"
  using update_attempt_cases[of w e p] assms
  by (auto simp: notes_keys_def simp del: missing_keys.simps)

lemma update_loop_retry:
  assumes "\<forall>i<k. \<not> valid_at e notes_keys (length (calls w) + i)"
    and "llm e (length (calls w) + k) = Inr raw"
    and "missing_keys notes_keys (repair_json e raw) = Inr []"
    and "k < n"
  shows "\<exists>w'. update_loop e p n w = (Inr (Some (repair_json e raw)), w')
           \<and> length (calls w') = length (calls w) + k + 1"
  using assms
proof (induction k arbitrary: n w)
  case 0
  then obtain n' where n: "n = Suc n'" by (cases n) auto
  show ?case using update_loop_accept[of e w raw p n'] 0(2,3) n by auto
next
  case (Suc k)
  then obtain n' where n: "n = Suc n'" by (cases n) auto
  have "\<not> valid_at e notes_keys (length (calls w))"
    using Suc.prems(1) by (metis add.right_neutral zero_less_Suc)
  then obtain w1 where c1: "length (calls w1) = Suc (length (calls w))"
    and st: "update_loop e p (Suc n') w = update_loop e p n' w1"
    using update_loop_skip by blast
  have "\<exists>w'. update_loop e p n' w1 = (Inr (Some (repair_json e raw)), w')
           \<and> length (calls w') = length (calls w1) + k + 1"
  proof (rule Suc.IH)
    show "\<forall>i<k. \<not> valid_at e notes_keys (length (calls w1) + i)"
      using Suc.prems(1) c1 by (metis Suc_less_eq add_Suc_right add_Suc_shift)
    show "llm e (length (calls w1) + k) = Inr raw" using Suc.prems(2) c1 by simp
    show "missing_keys notes_keys (repair_json e raw) = Inr []" using Suc.prems(3) .
    show "k < n'" using Suc.prems(4) n by simp
  qed
  then show ?case using st n c1 by auto
qed

lemma update_loop_exhausted:
  assumes "\<forall>i<n. \<not> valid_at e notes_keys (length (calls w) + i)"
  shows "\<exists>w'. update_loop e p n w = (Inr None, w') \<and> length (calls w') = length (calls w) + n"
  using assms
proof (induction n arbitrary: w)
  case 0
  then show ?case by simp
next
  case (Suc n)
  have "\<not> valid_at e notes_keys (length (calls w))"
    using Suc.prems(1) by (metis add.right_neutral zero_less_Suc)
  then obtain w1 where c1: "length (calls w1) = Suc (length (calls w))"
    and st: "update_loop e p (Suc n) w = update_loop e p n w1"
    using update_loop_skip by blast
  have "\<exists>w'. update_loop e p n w1 = (Inr None, w') \<and> length (calls w') = length (calls w1) + n"
  proof (rule Suc.IH)
    show "\<forall>i<n. \<not> valid_at e notes_keys (length (calls w1) + i)"
      using Suc.prems(1) c1 by (metis Suc_less_eq add_Suc_right add_Suc_shift)
  qed
  then show ?case using st c1 by auto
qed

lemma update_loop_never_raises:
  "fst (update_loop e p n w) \<noteq> Inl err"
proof (induction n arbitrary: w)
  case 0
  then show ?case by simp
next
  case (Suc n)
  show ?case
    using Suc.IH
    by (auto split: prod.splits sum.splits option.splits)
qed

lemma deepcopy_refs_same:
  "deepcopy_refs rs memo w = (rs', w') \<Longrightarrow>
     calls w' = calls w \<and> stdout w' = stdout w \<and> length rs' = length rs"
proof (induction rs arbitrary: memo w rs' w')
  case Nil
  then show ?case by simp
next
  case (Cons r rs)
  show ?case
  proof (cases "map_of memo r")
    case None
    obtain rs1 w1 where rec:
      "deepcopy_refs rs ((r, length (heap w)) # memo) (w\<lparr>heap := heap w @ [deref w r]\<rparr>) = (rs1, w1)"
      by (metis surj_pair)
    then have "w' = w1" "rs' = length (heap w) # rs1"
      using Cons.prems None by (simp_all add: alloc_def)
    then show ?thesis using Cons.IH[OF rec] by simp
  next
    case (Some r')
    obtain rs1 w1 where rec: "deepcopy_refs rs memo w = (rs1, w1)"
      by (metis surj_pair)
    then have "w' = w1" "rs' = r' # rs1" using Cons.prems Some by simp_all
    then show ?thesis using Cons.IH[OF rec] by simp
  qed
qed

lemma deepcopy_hd:
  assumes "deepcopy (r # rs) w = (conv', w1)"
  shows "\<exists>rs'. conv' = length (heap w) # rs'"
    and "length (heap w) < length (heap w1)"
    and "deref w1 (length (heap w)) = deref w r"
proof -
  obtain rs1 w' where rec:
    "deepcopy_refs rs [(r, length (heap w))] (w\<lparr>heap := heap w @ [deref w r]\<rparr>) = (rs1, w')"
    by (metis surj_pair)
  then have eq: "w1 = w'" "conv' = length (heap w) # rs1"
    using assms by (simp_all add: deepcopy_def alloc_def)
  show "\<exists>rs'. conv' = length (heap w) # rs'" using eq by simp
  have "take (Suc (length (heap w))) (heap w') = take (Suc (length (heap w))) (heap w @ [deref w r])"
    using deepcopy_refs_take[OF rec, of "Suc (length (heap w))"] by simp
  then have t: "take (Suc (length (heap w))) (heap w') = heap w @ [deref w r]" by simp
  show "length (heap w) < length (heap w1)"
    using deepcopy_refs_length[OF rec] eq by simp
  have "heap w' ! length (heap w) = take (Suc (length (heap w))) (heap w') ! length (heap w)"
    by simp
  then show "deref w1 (length (heap w)) = deref w r"
    using t eq by (simp add: deref_def)
qed

section \<open>The caller's conversation is not touched\<close>

text \<open>
  C7. \<^verbatim>\<open>generate_collaborator_response\<close> works on a deep copy: every object that
  existed before the call, hence every message of the caller's conversation, is the same
  after the call as before, whatever the agent's memory and scaffolding modes are,
  however many retries occur, and also when the call ends in an exception.
\<close>

theorem generate_collaborator_response_frame:
  "take (length (heap w)) (heap (snd (generate_collaborator_response e a conv w))) = heap w
   \<and> (wf_conv w conv \<longrightarrow>
        map (deref (snd (generate_collaborator_response e a conv w))) conv = map (deref w) conv)"
proof -
  let ?w' = "snd (generate_collaborator_response e a conv w)"
  have t: "take (length (heap w)) (heap ?w') = heap w" by (rule generate_frame)
  have "deref ?w' r = deref w r" if "r < length (heap w)" for r
  proof -
    have "heap ?w' ! r = take (length (heap w)) (heap ?w') ! r" using that by simp
    then show ?thesis using t by (simp add: deref_def)
  qed
  then have "wf_conv w conv \<longrightarrow> map (deref ?w') conv = map (deref w) conv"
    by (auto simp: wf_conv_def list_all_iff)
  then show ?thesis using t by blast
qed

theorem generate_collaborator_response_frame_witness:
  "wf_conv example_world [0]
   \<and> map (deref (snd (generate_collaborator_response (example_env never_valid)
                        (example_agent True False 3) [0] example_world))) [0]
     = [\<lparr>role = ''user'', content = ''Hello''\<rparr>]"
  using generate_collaborator_response_frame
    [of example_world "example_env never_valid" "example_agent True False 3" "[0]"]
  by (simp add: wf_conv_def example_world_def deref_def)

section \<open>The retry loops count their attempts\<close>

lemma generate_retry:
  assumes "\<not> with_scaffolding a \<or> (\<not> with_proper_scaffolding a \<and> conv \<noteq> [])"
    and "\<forall>i<k. rejected_at e response_keys (length (calls w) + i)"
    and "valid_at e response_keys (length (calls w) + k)"
    and "k < nat (num_retries a)"
  shows "fst (generate_collaborator_response e a conv w)
           = Inr (Some (record_at e (length (calls w) + k)))
         \<and> length (calls (snd (generate_collaborator_response e a conv w)))
           = length (calls w) + (k + 1)"
proof -
  obtain conv' w1 where d: "deepcopy_refs conv [] w = (conv', w1)" by (metis surj_pair)
  have s: "calls w1 = calls w" "length conv' = length conv"
    using deepcopy_refs_same[OF d] by simp_all
  then have q: "\<not> with_scaffolding a \<or> (\<not> with_proper_scaffolding a \<and> conv' \<noteq> [])"
    using assms(1) by auto
  obtain raw where raw: "llm e (length (calls w1) + k) = Inr raw"
    "missing_keys response_keys (repair_json e raw) = Inr []"
    using assms(3) s by (auto simp: valid_at_def split: sum.splits)
  obtain w' where "generate_loop e a (nat (num_retries a)) conv' w1
        = (Inr (Some (repair_json e raw)), w')"
    "length (calls w') = length (calls w1) + k + 1"
    using generate_loop_retry[OF q _ raw assms(4)] assms(2) s by auto
  then show ?thesis
    using d s raw by (simp add: generate_collaborator_response_def deepcopy_def record_at_def)
qed

lemma generate_exhausted:
  assumes "\<not> with_scaffolding a \<or> (\<not> with_proper_scaffolding a \<and> conv \<noteq> [])"
    and "\<forall>i<nat (num_retries a). rejected_at e response_keys (length (calls w) + i)"
  shows "fst (generate_collaborator_response e a conv w) = Inr None
         \<and> length (calls (snd (generate_collaborator_response e a conv w)))
           = length (calls w) + nat (num_retries a)"
proof -
  obtain conv' w1 where d: "deepcopy_refs conv [] w = (conv', w1)" by (metis surj_pair)
  have s: "calls w1 = calls w" "length conv' = length conv"
    using deepcopy_refs_same[OF d] by simp_all
  then have q: "\<not> with_scaffolding a \<or> (\<not> with_proper_scaffolding a \<and> conv' \<noteq> [])"
    using assms(1) by auto
  obtain w' where "generate_loop e a (nat (num_retries a)) conv' w1 = (Inr None, w')"
    "length (calls w') = length (calls w1) + nat (num_retries a)"
    using generate_loop_exhausted[OF q, of "nat (num_retries a)" e w1] assms(2) s by auto
  then show ?thesis
    using d s by (simp add: generate_collaborator_response_def deepcopy_def)
qed

lemma update_retry:
  assumes "\<forall>i<k. \<not> valid_at e notes_keys (length (calls w) + i)"
    and "valid_at e notes_keys (length (calls w) + k)"
    and "k < nat (num_retries a)"
  shows "fst (update_agent_notes e a notes conv w)
           = Inr (Some (record_at e (length (calls w) + k)))
         \<and> length (calls (snd (update_agent_notes e a notes conv w)))
           = length (calls w) + (k + 1)"
proof -
  obtain raw where raw: "llm e (length (calls w) + k) = Inr raw"
    "missing_keys notes_keys (repair_json e raw) = Inr []"
    using assms(2) by (auto simp: valid_at_def split: sum.splits)
  define p where "p = update_agent_notes_prompt e (py_str e notes)
                (get_conversation_string (map (deref w) conv))"
  obtain w' where "update_loop e p (nat (num_retries a)) w = (Inr (Some (repair_json e raw)), w')"
    "length (calls w') = length (calls w) + k + 1"
    using update_loop_retry[OF assms(1) raw assms(3)] by blast
  then show ?thesis
    using raw(1) by (simp add: update_agent_notes_def Let_def record_at_def p_def)
qed

lemma update_exhausted:
  assumes "\<forall>i<nat (num_retries a). \<not> valid_at e notes_keys (length (calls w) + i)"
  shows "fst (update_agent_notes e a notes conv w) = Inr None
         \<and> length (calls (snd (update_agent_notes e a notes conv w)))
           = length (calls w) + nat (num_retries a)"
proof -
  define p where "p = update_agent_notes_prompt e (py_str e notes)
                (get_conversation_string (map (deref w) conv))"
  obtain w' where "update_loop e p (nat (num_retries a)) w = (Inr None, w')"
    "length (calls w') = length (calls w) + nat (num_retries a)"
    using update_loop_exhausted[OF assms] by blast
  then show ?thesis
    by (simp add: update_agent_notes_def Let_def p_def)
qed

text \<open>
  C1, amended. For \<^verbatim>\<open>generate_collaborator_response\<close> let the scaffolding step make no
  generator call: the agent has \<^verbatim>\<open>with_scaffolding\<close> off, or it scaffolds in raw mode a
  conversation that is not empty. An output fails validation when the list of its missing
  required keys is computed and is not empty (\<open>rejected_at\<close>). If the first \<open>k\<close>
  outputs of the generator fail validation, with \<open>k\<close> below \<^verbatim>\<open>num_retries\<close>, and output
  \<open>k + 1\<close> yields a record with all required keys, then
  \<^verbatim>\<open>generate_collaborator_response\<close> returns that record and has invoked the generator
  exactly \<open>k + 1\<close> times; if \<^verbatim>\<open>num_retries\<close> outputs in a row fail validation, it
  returns \<^verbatim>\<open>None\<close> after exactly \<^verbatim>\<open>num_retries\<close> invocations.
  \<^verbatim>\<open>update_agent_notes\<close> does the same under every configuration of the agent and for
  every conversation; there an attempt fails when it yields no valid record, be it that
  the generator call or the membership test raised or that a required key is missing
  (\<open>\<not> valid_at\<close>). (With model-mediated scaffolding every iteration of
  \<^verbatim>\<open>generate_collaborator_response\<close> invokes the generator for the scaffolding as well, so
  its count is larger.)
\<close>

theorem retry_loop_attempts:
  "((\<not> with_scaffolding a \<or> (\<not> with_proper_scaffolding a \<and> conv \<noteq> [])) \<longrightarrow>
       (k < nat (num_retries a)
          \<and> (\<forall>i<k. rejected_at e response_keys (length (calls w) + i))
          \<and> valid_at e response_keys (length (calls w) + k)
        \<longrightarrow> fst (generate_collaborator_response e a conv w)
              = Inr (Some (record_at e (length (calls w) + k)))
            \<and> length (calls (snd (generate_collaborator_response e a conv w)))
              = length (calls w) + (k + 1))
       \<and> ((\<forall>i<nat (num_retries a). rejected_at e response_keys (length (calls w) + i))
        \<longrightarrow> fst (generate_collaborator_response e a conv w) = Inr None
            \<and> length (calls (snd (generate_collaborator_response e a conv w)))
              = length (calls w) + nat (num_retries a)))
   \<and> (k < nat (num_retries a)
        \<and> (\<forall>i<k. \<not> valid_at e notes_keys (length (calls w) + i))
        \<and> valid_at e notes_keys (length (calls w) + k)
      \<longrightarrow> fst (update_agent_notes e a prior_notes conv w)
            = Inr (Some (record_at e (length (calls w) + k)))
          \<and> length (calls (snd (update_agent_notes e a prior_notes conv w)))
            = length (calls w) + (k + 1))
   \<and> ((\<forall>i<nat (num_retries a). \<not> valid_at e notes_keys (length (calls w) + i))
      \<longrightarrow> fst (update_agent_notes e a prior_notes conv w) = Inr None
          \<and> length (calls (snd (update_agent_notes e a prior_notes conv w)))
            = length (calls w) + nat (num_retries a))"
proof -
  have g1: "fst (generate_collaborator_response e a conv w)
              = Inr (Some (record_at e (length (calls w) + k)))
            \<and> length (calls (snd (generate_collaborator_response e a conv w)))
              = length (calls w) + (k + 1)"
    if "\<not> with_scaffolding a \<or> (\<not> with_proper_scaffolding a \<and> conv \<noteq> [])"
      and "k < nat (num_retries a)"
      and "\<forall>i<k. rejected_at e response_keys (length (calls w) + i)"
      and "valid_at e response_keys (length (calls w) + k)"
    using generate_retry[OF that(1,3,4,2)] .
  have g2: "fst (generate_collaborator_response e a conv w) = Inr None
            \<and> length (calls (snd (generate_collaborator_response e a conv w)))
              = length (calls w) + nat (num_retries a)"
    if "\<not> with_scaffolding a \<or> (\<not> with_proper_scaffolding a \<and> conv \<noteq> [])"
      and "\<forall>i<nat (num_retries a). rejected_at e response_keys (length (calls w) + i)"
    using generate_exhausted[OF that] .
  have u1: "fst (update_agent_notes e a prior_notes conv w)
            = Inr (Some (record_at e (length (calls w) + k)))
          \<and> length (calls (snd (update_agent_notes e a prior_notes conv w)))
            = length (calls w) + (k + 1)"
    if "k < nat (num_retries a)"
      and "\<forall>i<k. \<not> valid_at e notes_keys (length (calls w) + i)"
      and "valid_at e notes_keys (length (calls w) + k)"
    using update_retry[OF that(2,3,1)] .
  have u2: "fst (update_agent_notes e a prior_notes conv w) = Inr None
          \<and> length (calls (snd (update_agent_notes e a prior_notes conv w)))
            = length (calls w) + nat (num_retries a)"
    if "\<forall>i<nat (num_retries a). \<not> valid_at e notes_keys (length (calls w) + i)"
    using update_exhausted[OF that] .
  show ?thesis using g1 g2 u1 u2 by blast
qed

text \<open>The definitions of the example inputs, for evaluation.\<close>

lemmas example_defs =
  example_env_def example_agent_def example_world_def example_repair_json_def

theorem retry_loop_attempts_witness:
  "fst (generate_collaborator_response (example_env two_failures_then_response)
          (example_agent False False 10) [0] example_world)
     = Inr (Some (PDict [(''reasoning'', PStr ''r''), (''response'', PStr ''hi'')]))
   \<and> length (calls (snd (generate_collaborator_response (example_env two_failures_then_response)
          (example_agent False False 10) [0] example_world))) = 3
   \<and> fst (generate_collaborator_response (example_env never_valid)
          (example_agent False False 10) [0] example_world) = Inr None
   \<and> length (calls (snd (generate_collaborator_response (example_env never_valid)
          (example_agent False False 10) [0] example_world))) = 10
   \<and> fst (update_agent_notes (example_env two_failures_then_notes)
          (example_agent False False 10) (PStr ''none yet'') [0] example_world)
     = Inr (Some (PDict [(''user_preferences_reasoning'', PStr ''u''),
                         (''agent_notes'', PStr ''likes Python'')]))
   \<and> length (calls (snd (update_agent_notes (example_env two_failures_then_notes)
          (example_agent False False 10) (PStr ''none yet'') [0] example_world))) = 3
   \<and> fst (update_agent_notes (example_env never_valid)
          (example_agent False False 10) (PStr ''none yet'') [0] example_world) = Inr None
   \<and> length (calls (snd (update_agent_notes (example_env never_valid)
          (example_agent False False 10) (PStr ''none yet'') [0] example_world))) = 10"
proof -
  let ?a = "example_agent False False 10"
  have q: "\<not> with_scaffolding ?a \<or> (\<not> with_proper_scaffolding ?a \<and> [0::nat] \<noteq> [])"
    by (simp add: example_agent_def)
  have n: "nat (num_retries ?a) = 10" "length (calls example_world) = 0"
    by (simp_all add: example_agent_def example_world_def)
  have r1: "\<forall>i<2. rejected_at (example_env two_failures_then_response) response_keys
               (length (calls example_world) + i)"
    by (simp add: rejected_at_def response_keys_def example_defs
        two_failures_then_response_def py_in_def)
  have v1: "valid_at (example_env two_failures_then_response) response_keys
               (length (calls example_world) + 2)"
    by (simp add: valid_at_def response_keys_def example_defs
        two_failures_then_response_def py_in_def)
  have c1: "record_at (example_env two_failures_then_response) (length (calls example_world) + 2)
      = PDict [(''reasoning'', PStr ''r''), (''response'', PStr ''hi'')]"
    by (simp add: record_at_def example_defs two_failures_then_response_def)
  have r2: "\<forall>i<nat (num_retries ?a). rejected_at (example_env never_valid) response_keys
               (length (calls example_world) + i)"
    by (simp add: rejected_at_def response_keys_def example_defs never_valid_def py_in_def)
  have r3: "\<forall>i<2. \<not> valid_at (example_env two_failures_then_notes) notes_keys
               (length (calls example_world) + i)"
    by (simp add: valid_at_def notes_keys_def example_defs
        two_failures_then_notes_def py_in_def)
  have v3: "valid_at (example_env two_failures_then_notes) notes_keys
               (length (calls example_world) + 2)"
    by (simp add: valid_at_def notes_keys_def example_defs
        two_failures_then_notes_def py_in_def)
  have c3: "record_at (example_env two_failures_then_notes) (length (calls example_world) + 2)
      = PDict [(''user_preferences_reasoning'', PStr ''u''), (''agent_notes'', PStr ''likes Python'')]"
    by (simp add: record_at_def example_defs two_failures_then_notes_def)
  have r4: "\<forall>i<nat (num_retries ?a). \<not> valid_at (example_env never_valid) notes_keys
               (length (calls example_world) + i)"
    by (simp add: valid_at_def notes_keys_def example_defs never_valid_def py_in_def)
  show ?thesis
    using retry_loop_attempts[where a="?a" and conv="[0]" and k=2
        and e="example_env two_failures_then_response" and w=example_world]
      retry_loop_attempts[where a="?a" and conv="[0]" and k=2
        and e="example_env two_failures_then_notes" and w=example_world
        and prior_notes="PStr ''none yet''"]
      retry_loop_attempts[where a="?a" and conv="[0]" and k=2
        and e="example_env never_valid" and w=example_world and prior_notes="PStr ''none yet''"]
      q r1 v1 c1 r2 r3 v3 c3 r4 n
    by simp
qed

text \<open>With model-mediated scaffolding the first response attempt succeeds (nothing is
  printed), yet the generator has been invoked twice.\<close>

theorem retry_loop_attempts_counterexample:
  "fst (generate_collaborator_response (example_env scaffold_then_response)
          (example_agent True True 10) [0] example_world)
     = Inr (Some (PDict [(''reasoning'', PStr ''r''), (''response'', PStr ''hi'')]))
   \<and> stdout (snd (generate_collaborator_response (example_env scaffold_then_response)
          (example_agent True True 10) [0] example_world)) = []
   \<and> length (calls (snd (generate_collaborator_response (example_env scaffold_then_response)
          (example_agent True True 10) [0] example_world))) = 2"
  by code_simp

lemma alloc_all_same:
  "alloc_all ms w = (rs, w') \<Longrightarrow> calls w' = calls w \<and> stdout w' = stdout w"
proof (induction ms arbitrary: w rs w')
  case Nil
  then show ?case by simp
next
  case (Cons m ms)
  obtain rs1 w1 where rec:
    "alloc_all ms (w\<lparr>heap := heap w @ [\<lparr>role = role m, content = content m\<rparr>]\<rparr>) = (rs1, w1)"
    by (metis surj_pair)
  then have "w' = w1" using Cons.prems by (simp add: alloc_def)
  then show ?case using Cons.IH[OF rec] by simp
qed

section \<open>A failed consolidation keeps the notes\<close>

text \<open>
  C3. When no attempt of \<^verbatim>\<open>update_agent_notes\<close> obtains a valid record within the retry
  budget (each attempt raised, or its record lacked a required key), it returns \<^verbatim>\<open>None\<close>
  for every prior-notes value and conversation, and \<^verbatim>\<open>show_survey_interface\<close> leaves the
  session state, the stored \<^verbatim>\<open>agent_notes\<close> in particular, as it was.
\<close>

theorem failed_update_keeps_notes:
  assumes "\<forall>i<nat (num_retries (st_agent st)).
             \<not> valid_at e notes_keys (length (calls w) + i)"
  shows "fst (update_agent_notes e (st_agent st) notes conv w) = Inr None
         \<and> fst (survey_update_notes e uses_memory st w) = Inr st"
proof -
  have 1: "fst (update_agent_notes e (st_agent st) notes conv w) = Inr None"
    using update_exhausted[OF assms] by simp
  have 2: "fst (survey_update_notes e uses_memory st w) = Inr st"
  proof (cases uses_memory)
    case False
    then show ?thesis by (simp add: survey_update_notes_def)
  next
    case True
    obtain conversation w1 where al: "alloc_all (st_messages st) w = (conversation, w1)"
      by (metis surj_pair)
    have c: "calls w1 = calls w" using alloc_all_same[OF al] by simp
    have u: "fst (update_agent_notes e (st_agent st) n conversation w1) = Inr None" for n
      using update_exhausted[of "st_agent st" e w1 n conversation] assms c by simp
    obtain w2 where u1: "update_agent_notes e (st_agent st) (st_agent_notes st) conversation w1
        = (Inr None, w2)"
      using u[of "st_agent_notes st"] by (metis prod.collapse)
    obtain w3 where u2: "update_agent_notes e (st_agent st)
        (PStr ''Initial notes: No preferences learned yet.'') conversation w1 = (Inr None, w3)"
      using u[of "PStr ''Initial notes: No preferences learned yet.''"] by (metis prod.collapse)
    show ?thesis
      using True al u1 u2
      by (simp add: survey_update_notes_def result_has_def)
  qed
  show ?thesis using 1 2 by simp
qed

theorem failed_update_keeps_notes_witness:
  "fst (update_agent_notes (example_env never_valid) (example_agent False False 10)
          (PStr ''Prefers Python.'') [0] example_world) = Inr None
   \<and> fst (survey_update_notes (example_env never_valid) True
            \<lparr>st_agent_notes = PStr ''Prefers Python.'',
             st_agent = example_agent False False 10,
             st_messages = [\<lparr>role = ''user'', content = ''Hello''\<rparr>]\<rparr> example_world)
       = Inr \<lparr>st_agent_notes = PStr ''Prefers Python.'',
             st_agent = example_agent False False 10,
             st_messages = [\<lparr>role = ''user'', content = ''Hello''\<rparr>]\<rparr>"
proof -
  let ?st = "\<lparr>st_agent_notes = PStr ''Prefers Python.'',
             st_agent = example_agent False False 10,
             st_messages = [\<lparr>role = ''user'', content = ''Hello''\<rparr>]\<rparr>"
  have "\<forall>i<nat (num_retries (st_agent ?st)).
          \<not> valid_at (example_env never_valid) notes_keys (length (calls example_world) + i)"
    by (simp add: valid_at_def notes_keys_def example_defs never_valid_def py_in_def)
  from failed_update_keeps_notes[OF this, of "PStr ''Prefers Python.''" "[0]" True]
  show ?thesis by simp
qed

section \<open>Exceptions that leave the response loop\<close>

lemma scaffolding_loop_exhausted:
  assumes "\<forall>i<n. rejected_at e scaffolding_keys (length (calls w) + i)"
  shows "\<exists>w'. scaffolding_loop e sm msgs n w = (Inr None, w')
           \<and> length (calls w') = length (calls w) + n"
  using assms
proof (induction n arbitrary: w)
  case 0
  then show ?case by simp
next
  case (Suc n)
  have "rejected_at e scaffolding_keys (length (calls w))"
    using Suc.prems(1) by (metis add.right_neutral zero_less_Suc)
  then obtain raw mk where r0: "llm e (length (calls w)) = Inr raw"
    "missing_keys [''reasoning'', ''relevant_notes''] (repair_json e raw) = Inr mk" "mk \<noteq> []"
    by (auto simp: rejected_at_def scaffolding_keys_def split: sum.splits
        simp del: missing_keys.simps)
  obtain r1 w1 where c: "completion e sm w = (r1, w1)" by (metis surj_pair)
  have c1: "calls w1 = calls w @ [sm]" "r1 = Inr raw" using completionD[OF c] r0(1) by simp_all
  define w2 where "w2 = print (MissingKeysScaffolding mk (repair_json e raw)) w1"
  have c2: "length (calls w2) = Suc (length (calls w))"
    using c1 by (simp add: w2_def print_simps)
  have st: "scaffolding_loop e sm msgs (Suc n) w = scaffolding_loop e sm msgs n w2"
    using c c1 r0 by (simp add: w2_def Let_def del: missing_keys.simps)
  have "\<exists>w'. scaffolding_loop e sm msgs n w2 = (Inr None, w')
           \<and> length (calls w') = length (calls w2) + n"
  proof (rule Suc.IH)
    show "\<forall>i<n. rejected_at e scaffolding_keys (length (calls w2) + i)"
      using Suc.prems(1) c2 by (metis Suc_less_eq add_Suc_right add_Suc_shift)
  qed
  then show ?case using st c2 by auto
qed

lemma generate_loop_raise:
  assumes "\<not> with_scaffolding a \<or> (\<not> with_proper_scaffolding a \<and> conv \<noteq> [])"
    and "llm e (length (calls w)) = Inl err"
  shows "\<exists>w3. generate_loop e a (Suc n) conv w = (Inl err, w3)
           \<and> length (calls w3) = Suc (length (calls w)) \<and> stdout w3 = stdout w"
proof -
  obtain w1 where s: "(if with_scaffolding a then add_scaffolding_to_conversation e a conv w
            else (Inr (Some conv), w)) = (Inr (Some conv), w1)"
    and c1: "calls w1 = calls w" "stdout w1 = stdout w"
    using quiet_scaffolding[OF assms(1)] by blast
  obtain sr w2 where al: "alloc \<lparr>role = ''system'', content = system_prompt a\<rparr> w1 = (sr, w2)"
    by (metis surj_pair)
  have c2: "calls w2 = calls w" "stdout w2 = stdout w" using allocD[OF al] c1 by simp_all
  obtain r3 w3 where cp: "completion e (map (deref w2) (sr # conv)) w2 = (r3, w3)"
    by (metis surj_pair)
  have c3: "length (calls w3) = Suc (length (calls w))" "r3 = Inl err" "stdout w3 = stdout w"
    using completionD[OF cp] c2 assms(2) by simp_all
  have "generate_loop e a (Suc n) conv w = (Inl err, w3)"
    using s al cp c3(2) by (simp add: Let_def del: missing_keys.simps)
  then show ?thesis using c3 by blast
qed

text \<open>
  C2. The code does not degrade to an un-augmented conversation. When model-mediated
  scaffolding uses up its retries, \<^verbatim>\<open>add_scaffolding_to_conversation\<close> falls off its loop and
  returns \<^verbatim>\<open>None\<close>; the first iteration of \<^verbatim>\<open>generate_collaborator_response\<close> then
  evaluates \<^verbatim>\<open>[system message] + None\<close> and ends in a \<^verbatim>\<open>TypeError\<close>, after
  \<^verbatim>\<open>num_retries\<close> scaffolding invocations and without ever asking for a response.
\<close>

theorem exhausted_scaffolding_raises:
  assumes "with_scaffolding a" and "with_proper_scaffolding a" and "0 < num_retries a"
    and "\<forall>i<nat (num_retries a). rejected_at e scaffolding_keys (length (calls w) + i)"
  shows "fst (generate_collaborator_response e a conv w) = Inl TypeError
         \<and> length (calls (snd (generate_collaborator_response e a conv w)))
           = length (calls w) + nat (num_retries a)"
proof -
  obtain conv' w1 where d: "deepcopy_refs conv [] w = (conv', w1)" by (metis surj_pair)
  have s: "calls w1 = calls w" using deepcopy_refs_same[OF d] by simp
  obtain n where n: "nat (num_retries a) = Suc n" using assms(3) by (cases "nat (num_retries a)") auto
  define sm where "sm = scaffolding_message e a conv' w1"
  define w2 where "w2 = w1\<lparr>heap := heap w1 @ [sm]\<rparr>"
  have c2: "calls w2 = calls w" using s by (simp add: w2_def)
  obtain w3 where l: "scaffolding_loop e [sm] conv' (nat (num_retries a)) w2 = (Inr None, w3)"
    and c3: "length (calls w3) = length (calls w) + nat (num_retries a)"
    using scaffolding_loop_exhausted[of "nat (num_retries a)" e w2 "[sm]" conv'] assms(4) c2
    by auto
  have ad: "add_scaffolding_to_conversation e a conv' w1 = (Inr None, w3)"
    using l assms(2) by (simp add: add_scaffolding_proper sm_def w2_def)
  obtain sr w4 where al: "alloc \<lparr>role = ''system'', content = system_prompt a\<rparr> w3 = (sr, w4)"
    by (metis surj_pair)
  have c4: "calls w4 = calls w3" using allocD[OF al] by simp
  have "generate_loop e a (Suc n) conv' w1 = (Inl TypeError, w4)"
    using assms(1) ad al by simp
  then show ?thesis
    using d n c3 c4 by (simp add: generate_collaborator_response_def deepcopy_def)
qed

theorem exhausted_scaffolding_raises_witness:
  "fst (generate_collaborator_response (example_env never_valid)
          (example_agent True True 3) [0] example_world) = Inl TypeError
   \<and> length (calls (snd (generate_collaborator_response (example_env never_valid)
          (example_agent True True 3) [0] example_world))) = 3"
proof -
  let ?a = "example_agent True True 3"
  have a: "with_scaffolding ?a" "with_proper_scaffolding ?a" "0 < num_retries ?a"
    by (simp_all add: example_agent_def)
  have r: "\<forall>i<nat (num_retries ?a). rejected_at (example_env never_valid) scaffolding_keys
             (length (calls example_world) + i)"
    by (simp add: rejected_at_def scaffolding_keys_def example_defs never_valid_def py_in_def)
  from exhausted_scaffolding_raises[OF a r, of "[0]"]
  show ?thesis by (simp add: example_agent_def example_world_def)
qed

text \<open>
  C5. The two loops differ. \<^verbatim>\<open>update_agent_notes\<close> wraps each attempt in
  \<^verbatim>\<open>try ... except Exception\<close> and never lets an exception out.
  \<^verbatim>\<open>generate_collaborator_response\<close> has no handler: an exception raised by the generator
  call leaves the loop at once, after that single invocation, with nothing printed and no
  retry.
\<close>

theorem generator_error_propagates:
  assumes "\<not> with_scaffolding a \<or> (\<not> with_proper_scaffolding a \<and> conv \<noteq> [])"
    and "0 < num_retries a"
    and "llm e (length (calls w)) = Inl err"
  shows "fst (generate_collaborator_response e a conv w) = Inl err
         \<and> length (calls (snd (generate_collaborator_response e a conv w)))
           = length (calls w) + 1
         \<and> stdout (snd (generate_collaborator_response e a conv w)) = stdout w
         \<and> fst (update_agent_notes e a notes conv w) \<noteq> Inl err'"
proof -
  obtain conv' w1 where d: "deepcopy_refs conv [] w = (conv', w1)" by (metis surj_pair)
  have s: "calls w1 = calls w" "stdout w1 = stdout w" "length conv' = length conv"
    using deepcopy_refs_same[OF d] by simp_all
  then have q: "\<not> with_scaffolding a \<or> (\<not> with_proper_scaffolding a \<and> conv' \<noteq> [])"
    using assms(1) by auto
  obtain n where n: "nat (num_retries a) = Suc n" using assms(2) by (cases "nat (num_retries a)") auto
  obtain w3 where "generate_loop e a (Suc n) conv' w1 = (Inl err, w3)"
    "length (calls w3) = Suc (length (calls w1))" "stdout w3 = stdout w1"
    using generate_loop_raise[OF q, of e w1 err n] assms(3) s by auto
  then have "fst (generate_collaborator_response e a conv w) = Inl err
         \<and> length (calls (snd (generate_collaborator_response e a conv w)))
           = length (calls w) + 1
         \<and> stdout (snd (generate_collaborator_response e a conv w)) = stdout w"
    using d n s by (simp add: generate_collaborator_response_def deepcopy_def)
  moreover have "fst (update_agent_notes e a notes conv w) \<noteq> Inl err'"
    using update_loop_never_raises by (simp add: update_agent_notes_def Let_def)
  ultimately show ?thesis by simp
qed

theorem generator_error_propagates_witness:
  "fst (generate_collaborator_response (example_env times_out)
          (example_agent False False 10) [0] example_world) = Inl (GeneratorError ''timeout'')
   \<and> length (calls (snd (generate_collaborator_response (example_env times_out)
          (example_agent False False 10) [0] example_world))) = 1
   \<and> stdout (snd (generate_collaborator_response (example_env times_out)
          (example_agent False False 10) [0] example_world)) = []
   \<and> fst (update_agent_notes (example_env times_out)
          (example_agent False False 10) (PStr ''Prefers Python.'') [0] example_world)
       \<noteq> Inl (GeneratorError ''timeout'')"
proof -
  let ?a = "example_agent False False 10"
  have a: "\<not> with_scaffolding ?a \<or> (\<not> with_proper_scaffolding ?a \<and> [0::nat] \<noteq> [])"
    "0 < num_retries ?a"
    by (simp_all add: example_agent_def)
  have r: "llm (example_env times_out) (length (calls example_world))
             = Inl (GeneratorError ''timeout'')"
    by (simp add: example_env_def times_out_def)
  from generator_error_propagates[OF a r, of "PStr ''Prefers Python.''" "GeneratorError ''timeout''"]
  show ?thesis by (simp add: example_world_def)
qed

section \<open>What the response loop returns\<close>

lemma generate_loop_last:
  "generate_loop e a n conv w = (Inr (Some v), w') \<Longrightarrow>
     length (calls w) < length (calls w')
     \<and> (\<exists>raw. llm e (length (calls w') - 1) = Inr raw \<and> v = repair_json e raw)
     \<and> missing_keys response_keys v = Inr []"
proof (induction n arbitrary: conv w)
  case 0
  then show ?case by simp
next
  case (Suc n)
  obtain r1 w1 where s: "(if with_scaffolding a then add_scaffolding_to_conversation e a conv w
            else (Inr (Some conv), w)) = (r1, w1)"
    by (metis surj_pair)
  obtain ys1 where c1: "calls w1 = calls w @ ys1"
    using s add_scaffolding_calls[of e a conv w r1 w1] by (auto split: if_splits)
  obtain sr w2 where al: "alloc \<lparr>role = ''system'', content = system_prompt a\<rparr> w1 = (sr, w2)"
    by (metis surj_pair)
  have c2: "calls w2 = calls w @ ys1" using allocD[OF al] c1 by simp
  show ?case
  proof (cases r1)
    case (Inl err)
    then show ?thesis using Suc.prems(1) s by simp
  next
    case (Inr c')
    show ?thesis
    proof (cases c')
      case None
      then show ?thesis using Suc.prems(1) s Inr al by simp
    next
      case (Some conv1)
      obtain r3 w3 where cp: "completion e (map (deref w2) (sr # conv1)) w2 = (r3, w3)"
        by (metis surj_pair)
      have c3: "calls w3 = calls w @ ys1 @ [map (deref w2) (sr # conv1)]"
        and r3: "r3 = llm e (length (calls w @ ys1))"
        using completionD[OF cp] c2 by simp_all
      have l3: "length (calls w3) - 1 = length (calls w @ ys1)"
        "length (calls w) < length (calls w3)"
        using c3 by simp_all
      show ?thesis
      proof (cases r3)
        case (Inl err)
        then show ?thesis using Suc.prems(1) s Inr Some al cp by simp
      next
        case raw: (Inr raw)
        show ?thesis
        proof (cases "missing_keys response_keys (repair_json e raw)")
          case (Inl err)
          then show ?thesis
            using Suc.prems(1) s Inr Some al cp raw
            by (simp add: response_keys_def del: missing_keys.simps)
        next
          case mk: (Inr mk)
          show ?thesis
          proof (cases "mk = []")
            case True
            then have "v = repair_json e raw" "w' = w3"
              using Suc.prems(1) s Inr Some al cp raw mk
              by (simp_all add: response_keys_def del: missing_keys.simps)
            then show ?thesis using mk True raw r3 l3 by auto
          next
            case False
            then have g: "generate_loop e a n conv1
                (print (MissingKeysResponse mk (map (deref w2) (sr # conv1)) raw
                          (repair_json e raw)) w3) = (Inr (Some v), w')"
              using Suc.prems(1) s Inr Some al cp raw mk
              by (simp add: response_keys_def del: missing_keys.simps)
            from Suc.IH[OF g] l3(2) show ?thesis by (simp add: print_simps)
          qed
        qed
      qed
    qed
  qed
qed

lemma missing_keys_Nil:
  "missing_keys ks v = Inr [] \<Longrightarrow> k \<in> set ks \<Longrightarrow> py_in k v = Inr True"
  by (induction ks) (auto split: sum.splits if_splits)

lemma py_in_dict_getitem:
  assumes "py_in k (PDict kvs) = Inr True"
  shows "\<exists>x. map_of kvs k = Some x \<and> py_getitem (PDict kvs) k = Inr x"
proof -
  have "k \<in> fst ` set kvs" using assms by (simp add: py_in_def)
  then obtain x where "map_of kvs k = Some x"
    by (metis domD dom_map_of_conv_image_fst)
  then show ?thesis by (simp add: py_getitem_def)
qed

text \<open>
  C4, amended. On success \<^verbatim>\<open>generate_collaborator_response\<close> returns, unchanged, the whole
  value that \<^verbatim>\<open>repair_json\<close> extracted from the last output of the generator, and that
  value has passed the test for both required keys; it is not the response text. Whenever
  the returned value is a key-value mapping, it holds the \<^verbatim>\<open>reasoning\<close> field and the
  \<^verbatim>\<open>response\<close> field, and the caller, \<^verbatim>\<open>show_study_interface\<close>, takes
  \<^verbatim>\<open>result["response"]\<close> out of it and displays exactly the value of the \<^verbatim>\<open>response\<close>
  field. (What the caller does with a returned value that is not a mapping is left open
  here.)
\<close>

theorem response_record_returned_whole:
  assumes "fst (generate_collaborator_response e a conv w) = Inr (Some v)"
  shows "length (calls w) < length (calls (snd (generate_collaborator_response e a conv w)))
     \<and> v = record_at e (length (calls (snd (generate_collaborator_response e a conv w))) - 1)
     \<and> valid_at e response_keys
          (length (calls (snd (generate_collaborator_response e a conv w))) - 1)
     \<and> (\<forall>kvs. v = PDict kvs \<longrightarrow>
           (\<exists>y x. py_getitem v ''reasoning'' = Inr y \<and> map_of kvs ''reasoning'' = Some y
                \<and> map_of kvs ''response'' = Some x \<and> response_text_of (Some v) = Inr x))"
proof -
  let ?w' = "snd (generate_collaborator_response e a conv w)"
  obtain conv' w1 where d: "deepcopy_refs conv [] w = (conv', w1)" by (metis surj_pair)
  have s: "calls w1 = calls w" using deepcopy_refs_same[OF d] by simp
  have g: "generate_loop e a (nat (num_retries a)) conv' w1 = (Inr (Some v), ?w')"
    using assms d
    by (simp add: generate_collaborator_response_def deepcopy_def) (metis prod.collapse)
  obtain raw where l: "length (calls w) < length (calls ?w')"
    and raw: "llm e (length (calls ?w') - 1) = Inr raw" "v = repair_json e raw"
    and m: "missing_keys response_keys v = Inr []"
    using generate_loop_last[OF g] s by auto
  have r: "v = record_at e (length (calls ?w') - 1)"
    using raw by (simp add: record_at_def)
  have va: "valid_at e response_keys (length (calls ?w') - 1)"
    using raw m by (simp add: valid_at_def)
  have 1: "py_in ''reasoning'' v = Inr True" and 2: "py_in ''response'' v = Inr True"
    using missing_keys_Nil[OF m] by (simp_all add: response_keys_def)
  have 3: "\<exists>y x. py_getitem v ''reasoning'' = Inr y \<and> map_of kvs ''reasoning'' = Some y
              \<and> map_of kvs ''response'' = Some x \<and> response_text_of (Some v) = Inr x"
    if vd: "v = PDict kvs" for kvs
  proof -
    have "kvs \<noteq> []" using 2 vd by (auto simp: py_in_def)
    then have h: "result_has (Some v) ''response'' = Inr True"
      using 2 vd by (simp add: result_has_def truthy_def)
    have k1: "py_in ''reasoning'' (PDict kvs) = Inr True"
      and k2: "py_in ''response'' (PDict kvs) = Inr True"
      using 1 2 vd by simp_all
    obtain y where y: "map_of kvs ''reasoning'' = Some y" "py_getitem v ''reasoning'' = Inr y"
      using py_in_dict_getitem[OF k1] vd by auto
    obtain x where x: "map_of kvs ''response'' = Some x" "py_getitem v ''response'' = Inr x"
      using py_in_dict_getitem[OF k2] vd by auto
    have "response_text_of (Some v) = Inr x"
      using h x(2) by (simp add: response_text_of_def)
    then show ?thesis using y x by blast
  qed
  show ?thesis using l r va 3 by blast
qed

theorem response_record_returned_whole_witness:
  "fst (generate_collaborator_response (example_env answers_at_once)
          (example_agent False False 10) [0] example_world)
     = Inr (Some (PDict [(''reasoning'', PStr ''r''), (''response'', PStr ''hi'')]))
   \<and> PDict [(''reasoning'', PStr ''r''), (''response'', PStr ''hi'')]
     = record_at (example_env answers_at_once)
         (length (calls (snd (generate_collaborator_response (example_env answers_at_once)
            (example_agent False False 10) [0] example_world))) - 1)
   \<and> py_getitem (PDict [(''reasoning'', PStr ''r''), (''response'', PStr ''hi'')]) ''reasoning''
     = Inr (PStr ''r'')
   \<and> response_text_of (Some (PDict [(''reasoning'', PStr ''r''), (''response'', PStr ''hi'')]))
     = Inr (PStr ''hi'')"
proof -
  have g: "fst (generate_collaborator_response (example_env answers_at_once)
          (example_agent False False 10) [0] example_world)
     = Inr (Some (PDict [(''reasoning'', PStr ''r''), (''response'', PStr ''hi'')]))"
    by code_simp
  note t = response_record_returned_whole[OF g]
  have 2: "PDict [(''reasoning'', PStr ''r''), (''response'', PStr ''hi'')]
     = record_at (example_env answers_at_once)
         (length (calls (snd (generate_collaborator_response (example_env answers_at_once)
            (example_agent False False 10) [0] example_world))) - 1)"
    using t by blast
  have 3: "py_getitem (PDict [(''reasoning'', PStr ''r''), (''response'', PStr ''hi'')])
             ''reasoning'' = Inr (PStr ''r'')"
    by (simp add: py_getitem_def)
  obtain x where "map_of [(''reasoning'', PStr ''r''), (''response'', PStr ''hi'')] ''response''
        = Some x"
    and x: "response_text_of (Some (PDict [(''reasoning'', PStr ''r''), (''response'', PStr ''hi'')]))
        = Inr x"
    using t by blast
  then have 4: "response_text_of
      (Some (PDict [(''reasoning'', PStr ''r''), (''response'', PStr ''hi'')])) = Inr (PStr ''hi'')"
    by simp
  show ?thesis using g 2 3 4 by blast
qed

text \<open>The value returned to the caller is the record with its \<^verbatim>\<open>reasoning\<close> field, and
  not the text \<^verbatim>\<open>hi\<close> of its \<^verbatim>\<open>response\<close> field.\<close>

theorem response_record_returned_whole_counterexample:
  "fst (generate_collaborator_response (example_env answers_at_once)
          (example_agent False False 10) [0] example_world)
     = Inr (Some (PDict [(''reasoning'', PStr ''r''), (''response'', PStr ''hi'')]))
   \<and> fst (generate_collaborator_response (example_env answers_at_once)
          (example_agent False False 10) [0] example_world)
     \<noteq> Inr (Some (PStr ''hi''))
   \<and> py_getitem (PDict [(''reasoning'', PStr ''r''), (''response'', PStr ''hi'')]) ''reasoning''
     = Inr (PStr ''r'')"
  by code_simp

section \<open>The extraction step\<close>





section \<open>Raw scaffolding\<close>

lemma is_substring_append: "is_substring k (p @ k @ q)"
proof (induction p)
  case Nil
  show ?case
  proof (cases "k @ q")
    case Nil
    then show ?thesis by simp
  next
    case (Cons a l)
    then have "take (length k) (a # l) = k" by (metis append_eq_conv_conj)
    then show ?thesis using Cons by simp
  qed
next
  case (Cons c p)
  then show ?case by simp
qed

lemma is_substring_iff: "is_substring k s \<longleftrightarrow> (\<exists>p q. s = p @ k @ q)"
proof
  show "\<exists>p q. s = p @ k @ q" if "is_substring k s"
    using that
  proof (induction s)
    case Nil
    then show ?case by simp
  next
    case (Cons c cs)
    show ?case
    proof (cases "take (length k) (c # cs) = k")
      case True
      then have "c # cs = [] @ k @ drop (length k) (c # cs)"
        by (metis append_Nil append_take_drop_id)
      then show ?thesis by blast
    next
      case False
      then obtain p q where "cs = p @ k @ q" using Cons by auto
      then have "c # cs = (c # p) @ k @ q" by simp
      then show ?thesis by blast
    qed
  qed
  show "is_substring k s" if "\<exists>p q. s = p @ k @ q"
    using that is_substring_append by auto
qed

text \<open>
  C8, amended. On every conversation that is not empty, raw-mode scaffolding cannot fail
  and makes no generator call: it returns the same message list, and the content of the
  first message becomes the fixed instruction, then the whole notes text, then the old
  content, so it contains both the instruction and the notes verbatim. (On the empty
  conversation \<^verbatim>\<open>messages[0]\<close> raises \<^verbatim>\<open>IndexError\<close>.)
\<close>

theorem raw_scaffolding_prepends:
  assumes "\<not> with_proper_scaffolding a" and "msgs = r # rs" and "r < length (heap w)"
    and "agent_notes a = PStr notes"
  shows "fst (add_scaffolding_to_conversation e a msgs w) = Inr (Some msgs)
     \<and> calls (snd (add_scaffolding_to_conversation e a msgs w)) = calls w
     \<and> content (deref (snd (add_scaffolding_to_conversation e a msgs w)) r)
         = raw_instruction @ notes @ content (deref w r)
     \<and> is_substring raw_instruction
         (content (deref (snd (add_scaffolding_to_conversation e a msgs w)) r))
     \<and> is_substring notes
         (content (deref (snd (add_scaffolding_to_conversation e a msgs w)) r))"
proof -
  let ?w' = "snd (add_scaffolding_to_conversation e a msgs w)"
  have eq: "add_scaffolding_to_conversation e a msgs w =
      (Inr (Some msgs),
       w\<lparr>heap := (heap w)[r := (deref w r)\<lparr>content := (raw_instruction @ notes) @ content (deref w r)\<rparr>]\<rparr>)"
    using assms(1,2,4) by (simp add: add_scaffolding_raw prepend_first_def py_str_def)
  have c: "content (deref ?w' r) = raw_instruction @ notes @ content (deref w r)"
    using eq assms(3) by (simp add: deref_def)
  have 1: "is_substring raw_instruction (content (deref ?w' r))"
    using is_substring_append[where k=raw_instruction and p="[]" and q="notes @ content (deref w r)"] c by simp
  have 2: "is_substring notes (content (deref ?w' r))"
    using is_substring_append[where k="notes" and p=raw_instruction and q="content (deref w r)"] c by simp
  show ?thesis using eq c 1 2 by simp
qed

theorem raw_scaffolding_prepends_witness:
  "fst (add_scaffolding_to_conversation (example_env never_valid)
          (example_agent True False 10) [0] example_world) = Inr (Some [0])
   \<and> calls (snd (add_scaffolding_to_conversation (example_env never_valid)
          (example_agent True False 10) [0] example_world)) = []
   \<and> content (deref (snd (add_scaffolding_to_conversation (example_env never_valid)
          (example_agent True False 10) [0] example_world)) 0)
       = raw_instruction @ ''Prefers Python.'' @ ''Hello''
   \<and> is_substring ''Prefers Python.''
       (content (deref (snd (add_scaffolding_to_conversation (example_env never_valid)
          (example_agent True False 10) [0] example_world)) 0))"
proof -
  let ?a = "example_agent True False 10"
  have a: "\<not> with_proper_scaffolding ?a" "agent_notes ?a = PStr ''Prefers Python.''"
    by (simp_all add: example_agent_def)
  have r: "(0::nat) < length (heap example_world)" by (simp add: example_world_def)
  have c: "calls example_world = []" "content (deref example_world 0) = ''Hello''"
    by (simp_all add: example_world_def deref_def)
  show ?thesis
    using raw_scaffolding_prepends[OF a(1) refl r a(2), where rs="[]"
        and e="example_env never_valid"]
    unfolding c by blast
qed

text \<open>On the empty conversation raw-mode scaffolding fails.\<close>

theorem raw_scaffolding_prepends_counterexample:
  "fst (add_scaffolding_to_conversation (example_env never_valid)
          (example_agent True False 10) [] example_world) = Inl IndexError"
  by code_simp

section \<open>Scaffolding inside the retry loop\<close>

lemma stacked_Suc: "stacked (Suc n) pre @ s = stacked n pre @ pre @ s"
proof -
  have "replicate (Suc n) pre = replicate n pre @ [pre]"
    by (metis replicate_Suc replicate_append_same)
  then show ?thesis by (simp add: stacked_def del: replicate_Suc)
qed

lemma generate_loop_raw_step:
  assumes "with_scaffolding a" and "\<not> with_proper_scaffolding a" and "r < length (heap w)"
  shows "\<exists>w3 msgs. calls w3 = calls w @ [msgs]
     \<and> msgs ! 1 = (deref w r)\<lparr>content :=
                      (raw_instruction @ py_str e (agent_notes a)) @ content (deref w r)\<rparr>
     \<and> deref w3 r = (deref w r)\<lparr>content :=
                      (raw_instruction @ py_str e (agent_notes a)) @ content (deref w r)\<rparr>
     \<and> r < length (heap w3)
     \<and> generate_loop e a (Suc n) (r # rs) w =
       (case llm e (length (calls w)) of
          Inl err \<Rightarrow> (Inl err, w3)
        | Inr raw \<Rightarrow>
            (case missing_keys response_keys (repair_json e raw) of
               Inl err \<Rightarrow> (Inl err, w3)
             | Inr mk \<Rightarrow>
                 if mk \<noteq> [] then
                   generate_loop e a n (r # rs)
                     (print (MissingKeysResponse mk msgs raw (repair_json e raw)) w3)
                 else (Inr (Some (repair_json e raw)), w3)))"
proof -
  define m' where "m' = (deref w r)\<lparr>content :=
                      (raw_instruction @ py_str e (agent_notes a)) @ content (deref w r)\<rparr>"
  define w1 where "w1 = w\<lparr>heap := (heap w)[r := m']\<rparr>"
  have s: "add_scaffolding_to_conversation e a (r # rs) w = (Inr (Some (r # rs)), w1)"
    using assms(2) by (simp add: add_scaffolding_raw prepend_first_def w1_def m'_def)
  obtain sr w2 where al: "alloc \<lparr>role = ''system'', content = system_prompt a\<rparr> w1 = (sr, w2)"
    by (metis surj_pair)
  have h2: "heap w2 = (heap w)[r := m'] @ [\<lparr>role = ''system'', content = system_prompt a\<rparr>]"
    and c2: "calls w2 = calls w"
    using allocD[OF al] by (simp_all add: w1_def)
  have d2: "deref w2 r = m'" using h2 assms(3) by (simp add: deref_def nth_append)
  obtain r3 w3 where cp: "completion e (map (deref w2) (sr # r # rs)) w2 = (r3, w3)"
    by (metis surj_pair)
  have c3: "calls w3 = calls w @ [map (deref w2) (sr # r # rs)]"
    "r3 = llm e (length (calls w))" "heap w3 = heap w2"
    using completionD[OF cp] c2 by simp_all
  have d3: "deref w3 r = m'" "r < length (heap w3)"
    using d2 c3(3) h2 assms(3) by (simp_all add: deref_def)
  have m1: "map (deref w2) (sr # r # rs) ! 1 = m'" using d2 by simp
  have "generate_loop e a (Suc n) (r # rs) w =
       (case llm e (length (calls w)) of
          Inl err \<Rightarrow> (Inl err, w3)
        | Inr raw \<Rightarrow>
            (case missing_keys response_keys (repair_json e raw) of
               Inl err \<Rightarrow> (Inl err, w3)
             | Inr mk \<Rightarrow>
                 if mk \<noteq> [] then
                   generate_loop e a n (r # rs)
                     (print (MissingKeysResponse mk (map (deref w2) (sr # r # rs)) raw
                               (repair_json e raw)) w3)
                 else (Inr (Some (repair_json e raw)), w3)))"
    using s al cp c3(2) assms(1)
    by (simp add: Let_def response_keys_def split: sum.splits del: missing_keys.simps)
  then show ?thesis using c3(1) m1 d3 unfolding m'_def by blast
qed

lemma generate_loop_raw_stack:
  assumes "with_scaffolding a" and "\<not> with_proper_scaffolding a"
    and "r < length (heap w)"
    and "\<forall>i<k. rejected_at e response_keys (length (calls w) + i)"
    and "k < n"
    and "generate_loop e a n (r # rs) w = (res, w')"
  shows "length (calls w) + k < length (calls w')
     \<and> (calls w' ! (length (calls w) + k)) ! 1
       = (deref w r)\<lparr>content :=
            stacked (Suc k) (raw_instruction @ py_str e (agent_notes a)) @ content (deref w r)\<rparr>"
  using assms(3-)
proof (induction k arbitrary: n w)
  case 0
  then obtain n' where n: "n = Suc n'" by (cases n) auto
  let ?m = "(deref w r)\<lparr>content :=
                      (raw_instruction @ py_str e (agent_notes a)) @ content (deref w r)\<rparr>"
  obtain w3 msgs where c3: "calls w3 = calls w @ [msgs]" and m: "msgs ! 1 = ?m"
    and st: "generate_loop e a (Suc n') (r # rs) w =
       (case llm e (length (calls w)) of
          Inl err \<Rightarrow> (Inl err, w3)
        | Inr raw \<Rightarrow>
            (case missing_keys response_keys (repair_json e raw) of
               Inl err \<Rightarrow> (Inl err, w3)
             | Inr mk \<Rightarrow>
                 if mk \<noteq> [] then
                   generate_loop e a n' (r # rs)
                     (print (MissingKeysResponse mk msgs raw (repair_json e raw)) w3)
                 else (Inr (Some (repair_json e raw)), w3)))"
    using generate_loop_raw_step[OF assms(1,2) 0(1), of e n' rs] by blast
  have "\<exists>ys. calls w' = calls w3 @ ys"
  proof (cases "llm e (length (calls w))")
    case (Inl err)
    then show ?thesis using st 0(4) n by simp
  next
    case (Inr raw)
    show ?thesis
    proof (cases "missing_keys response_keys (repair_json e raw)")
      case (Inl err)
      then show ?thesis using st 0(4) n Inr by simp
    next
      case mk: (Inr mk)
      show ?thesis
      proof (cases "mk = []")
        case True
        then show ?thesis using st 0(4) n Inr mk by simp
      next
        case False
        then have "generate_loop e a n' (r # rs)
                     (print (MissingKeysResponse mk msgs raw (repair_json e raw)) w3) = (res, w')"
          using st 0(4) n Inr mk by simp
        from generate_loop_calls[OF this] show ?thesis by (simp add: print_simps)
      qed
    qed
  qed
  then obtain ys where "calls w' = calls w @ [msgs] @ ys" using c3 by auto
  then show ?case using m by (simp add: stacked_def nth_append)
next
  case (Suc k)
  then obtain n' where n: "n = Suc n'" by (cases n) auto
  let ?pre = "raw_instruction @ py_str e (agent_notes a)"
  let ?m = "(deref w r)\<lparr>content := ?pre @ content (deref w r)\<rparr>"
  obtain w3 msgs where c3: "calls w3 = calls w @ [msgs]"
    and d3: "deref w3 r = ?m" "r < length (heap w3)"
    and st: "generate_loop e a (Suc n') (r # rs) w =
       (case llm e (length (calls w)) of
          Inl err \<Rightarrow> (Inl err, w3)
        | Inr raw \<Rightarrow>
            (case missing_keys response_keys (repair_json e raw) of
               Inl err \<Rightarrow> (Inl err, w3)
             | Inr mk \<Rightarrow>
                 if mk \<noteq> [] then
                   generate_loop e a n' (r # rs)
                     (print (MissingKeysResponse mk msgs raw (repair_json e raw)) w3)
                 else (Inr (Some (repair_json e raw)), w3)))"
    using generate_loop_raw_step[OF assms(1,2) Suc.prems(1), of e n' rs] by blast
  have "rejected_at e response_keys (length (calls w))"
    using Suc.prems(2) by (metis add.right_neutral zero_less_Suc)
  then obtain raw0 mk where r0: "llm e (length (calls w)) = Inr raw0"
    "missing_keys response_keys (repair_json e raw0) = Inr mk" "mk \<noteq> []"
    by (auto simp: rejected_at_def split: sum.splits)
  define w4 where "w4 = print (MissingKeysResponse mk msgs raw0 (repair_json e raw0)) w3"
  have c4: "length (calls w4) = Suc (length (calls w))"
    using c3 by (simp add: w4_def print_simps)
  have d4: "deref w4 r = ?m" "r < length (heap w4)"
    using d3 by (simp_all add: w4_def print_def deref_def)
  have g4: "generate_loop e a n' (r # rs) w4 = (res, w')"
    using st r0 Suc.prems(4) n by (simp add: w4_def)
  have "length (calls w4) + k < length (calls w')
     \<and> (calls w' ! (length (calls w4) + k)) ! 1
       = (deref w4 r)\<lparr>content := stacked (Suc k) ?pre @ content (deref w4 r)\<rparr>"
  proof (rule Suc.IH)
    show "r < length (heap w4)" using d4 by simp
    show "\<forall>i<k. rejected_at e response_keys (length (calls w4) + i)"
      using Suc.prems(2) c4 by (metis Suc_less_eq add_Suc_right add_Suc_shift)
    show "k < n'" using Suc.prems(3) n by simp
    show "generate_loop e a n' (r # rs) w4 = (res, w')" using g4 .
  qed
  then show ?case
    using c4 d4(1) stacked_Suc[of "Suc k" ?pre "content (deref w r)"] by simp
qed

text \<open>
  C9. Scaffolding is applied again in every iteration of the retry loop, to the
  conversation that the iteration before has already augmented. For an agent with
  \<^verbatim>\<open>with_scaffolding\<close> in raw mode and a conversation that is not empty: when the first
  \<open>n\<close> attempts fail validation and the retry budget allows a further attempt, attempt
  \<open>n + 1\<close> sends the generator a first conversation message whose content is \<open>n + 1\<close>
  copies of the injection prefix (instruction text, then notes) followed by the original
  content.
\<close>

theorem scaffolding_stacks_per_retry:
  assumes "with_scaffolding a" and "\<not> with_proper_scaffolding a" and "conv \<noteq> []"
    and "n < nat (num_retries a)"
    and "\<forall>i<n. rejected_at e response_keys (length (calls w) + i)"
  shows "length (calls w) + n < length (calls (snd (generate_collaborator_response e a conv w)))
     \<and> (calls (snd (generate_collaborator_response e a conv w)) ! (length (calls w) + n)) ! 1
       = (deref w (hd conv))\<lparr>content :=
            stacked (n + 1) (raw_instruction @ py_str e (agent_notes a))
              @ content (deref w (hd conv))\<rparr>"
proof -
  obtain r rs where conv: "conv = r # rs" using assms(3) by (cases conv) auto
  obtain conv' w1 where d: "deepcopy (r # rs) w = (conv', w1)" by (metis surj_pair)
  obtain rs' where c': "conv' = length (heap w) # rs'" using deepcopy_hd(1)[OF d] by blast
  have h1: "length (heap w) < length (heap w1)" "deref w1 (length (heap w)) = deref w r"
    using deepcopy_hd(2,3)[OF d] by simp_all
  have s: "calls w1 = calls w"
    using deepcopy_refs_same[of "r # rs" "[]" w conv' w1] d by (simp add: deepcopy_def)
  obtain res w' where g: "generate_loop e a (nat (num_retries a)) (length (heap w) # rs') w1
      = (res, w')"
    by (metis surj_pair)
  have "length (calls w1) + n < length (calls w')
     \<and> (calls w' ! (length (calls w1) + n)) ! 1
       = (deref w1 (length (heap w)))\<lparr>content :=
            stacked (Suc n) (raw_instruction @ py_str e (agent_notes a))
              @ content (deref w1 (length (heap w)))\<rparr>"
    using generate_loop_raw_stack[OF assms(1,2) h1(1) _ assms(4) g] assms(5) s by simp
  moreover have "snd (generate_collaborator_response e a conv w) = w'"
    using d c' g conv by (simp add: generate_collaborator_response_def)
  ultimately show ?thesis using s h1(2) conv by simp
qed

theorem scaffolding_stacks_per_retry_witness:
  "2 < length (calls (snd (generate_collaborator_response (example_env never_valid)
          (example_agent True False 10) [0] example_world)))
   \<and> (calls (snd (generate_collaborator_response (example_env never_valid)
          (example_agent True False 10) [0] example_world)) ! 2) ! 1
     = \<lparr>role = ''user'',
        content = stacked 3 (raw_instruction @ ''Prefers Python.'') @ ''Hello''\<rparr>"
proof -
  let ?a = "example_agent True False 10"
  have a: "with_scaffolding ?a" "\<not> with_proper_scaffolding ?a" "[0::nat] \<noteq> []"
    "2 < nat (num_retries ?a)"
    by (simp_all add: example_agent_def)
  have r: "\<forall>i<2. rejected_at (example_env never_valid) response_keys
             (length (calls example_world) + i)"
    by (simp add: rejected_at_def response_keys_def example_defs never_valid_def py_in_def)
  have c: "length (calls example_world) + 2 = 2" "(2::nat) + 1 = 3"
    "py_str (example_env never_valid) (agent_notes ?a) = ''Prefers Python.''"
    "(deref example_world (hd [0]))\<lparr>content :=
        stacked 3 (raw_instruction @ ''Prefers Python.'') @ content (deref example_world (hd [0]))\<rparr>
      = \<lparr>role = ''user'',
         content = stacked 3 (raw_instruction @ ''Prefers Python.'') @ ''Hello''\<rparr>"
    by (simp_all add: example_world_def deref_def example_agent_def py_str_def)
  show ?thesis
    using scaffolding_stacks_per_retry[OF a r] unfolding c by blast
qed

section \<open>A string taken for a record\<close>

lemma missing_keys_str:
  "missing_keys ks (PStr s) = Inr (filter (\<lambda>k. \<not> is_substring k s) ks)"
  by (induction ks) (auto simp: py_in_def)

text \<open>
  C10. The validation is Python membership. When the repaired value is a plain string
  that contains the words \<^verbatim>\<open>reasoning\<close> and \<^verbatim>\<open>response\<close>, the membership tests are
  substring tests and succeed, and \<^verbatim>\<open>generate_collaborator_response\<close> returns the string as
  if it were the record. The caller's test \<^verbatim>\<open>result and "response" in result\<close> is a
  substring test on that string as well.
\<close>

theorem string_passes_validation:
  assumes "\<not> with_scaffolding a" and "0 < num_retries a"
    and "llm e (length (calls w)) = Inr raw" and "repair_json e raw = PStr s"
    and "is_substring ''reasoning'' s" and "is_substring ''response'' s"
  shows "fst (generate_collaborator_response e a conv w) = Inr (Some (PStr s))
     \<and> result_has (Some (PStr s)) k = Inr (is_substring k s)"
proof -
  have v: "valid_at e response_keys (length (calls w) + 0)"
    using assms(3-6) by (simp add: valid_at_def missing_keys_str response_keys_def)
  have q: "\<not> with_scaffolding a \<or> (\<not> with_proper_scaffolding a \<and> conv \<noteq> [])"
    using assms(1) by simp
  have "fst (generate_collaborator_response e a conv w)
           = Inr (Some (record_at e (length (calls w) + 0)))"
    using generate_retry[OF q _ v] assms(2) by simp
  then have 1: "fst (generate_collaborator_response e a conv w) = Inr (Some (PStr s))"
    using assms(3,4) by (simp add: record_at_def)
  have "s \<noteq> []" using assms(5) by auto
  then have 2: "result_has (Some (PStr s)) k = Inr (is_substring k s)"
    by (simp add: result_has_def truthy_def py_in_def)
  show ?thesis using 1 2 by simp
qed

theorem string_passes_validation_witness:
  \<open>fst (generate_collaborator_response (example_env answers_string)
          (example_agent False False 10) [0] example_world)
     = Inr (Some (PStr ''no reasoning, no response''))
   \<and> result_has (Some (PStr ''no reasoning, no response'')) ''response'' = Inr True\<close>
proof -
  let ?a = "example_agent False False 10"
  have a: "\<not> with_scaffolding ?a" "0 < num_retries ?a"
    by (simp_all add: example_agent_def)
  have l: \<open>llm (example_env answers_string) (length (calls example_world))
             = Inr ''"no reasoning, no response"''\<close>
    by (simp add: example_env_def answers_string_def)
  have r: \<open>repair_json (example_env answers_string) ''"no reasoning, no response"''
             = PStr ''no reasoning, no response''\<close>
    by (simp add: example_env_def example_repair_json_def)
  have s: "is_substring ''reasoning'' ''no reasoning, no response''"
    "is_substring ''response'' ''no reasoning, no response''"
    by simp_all
  from string_passes_validation[OF a l r s, of "[0]" "''response''"] s(2)
  show ?thesis by simp
qed

end
